theory Spec2Isabelle
  imports Main "HOL-Library.Word"
begin

unbundle bit_operations_syntax

section \<open>Go values shared by the packages of kodofs\<close>

text \<open>
  The Go \<open>error\<close> values that the code of the repository creates or tests for.
  \<open>PathError op path err\<close> is the wrapper of package \<open>os\<close>, which
  \<open>os.IsNotExist\<close> looks through; \<open>ErrOther\<close> stands for every other error
  value (a network failure, a corrupt token, ...), told apart by its message.
\<close>

datatype error =
    ErrNotExist
  | ErrExist
  | ErrPermission
  | ErrInvalid
  | EOF
  | CorruptInputError
  | PathError string string error
  | ErrOther string

text \<open>\<open>os.IsNotExist\<close>: unwraps a \<open>PathError\<close>, then compares with \<open>ErrNotExist\<close>.\<close>

fun underlyingError :: "error \<Rightarrow> error" where
  "underlyingError (PathError operation path e) = e"
| "underlyingError e = e"

definition IsNotExist :: "error \<Rightarrow> bool" where
  "IsNotExist e = (underlyingError e = ErrNotExist)"

text \<open>
  How a Go call ends: it returns a value, or it panics. An index expression \<open>a[i]\<close>
  panics when \<open>i\<close> is not below the length; a slice expression \<open>s[lo:hi]\<close> panics
  unless \<open>0 \<le> lo \<le> hi \<le> len(s)\<close>. \<open>OutOfFuel\<close> is not a Go result: it is what a
  model of a loop that may run forever gives when its bound on the number of rounds is used up.
\<close>

datatype panic =
    IndexOutOfRange nat nat
  | SliceOutOfRange int int nat

datatype 'a outcome =
    Returned 'a
  | Panic panic
  | OutOfFuel

text \<open>\<open>s[lo:]\<close> and \<open>s[lo:hi]\<close> on a string, with Go's \<open>int\<close> indices.\<close>

definition slice_from :: "string \<Rightarrow> int \<Rightarrow> panic + string" where
  "slice_from s lo =
     (if 0 \<le> lo \<and> lo \<le> int (length s) then Inr (drop (nat lo) s)
      else Inl (SliceOutOfRange lo (int (length s)) (length s)))"

definition slice :: "string \<Rightarrow> int \<Rightarrow> int \<Rightarrow> panic + string" where
  "slice s lo hi =
     (if 0 \<le> lo \<and> lo \<le> hi \<and> hi \<le> int (length s) then Inr (take (nat (hi - lo)) (drop (nat lo) s))
      else Inl (SliceOutOfRange lo hi (length s)))"

text \<open>Package \<open>strings\<close>.\<close>

definition HasPrefix :: "string \<Rightarrow> string \<Rightarrow> bool" where
  "HasPrefix s pre = (length pre \<le> length s \<and> take (length pre) s = pre)"

definition HasSuffix :: "string \<Rightarrow> string \<Rightarrow> bool" where
  "HasSuffix s suf = (length suf \<le> length s \<and> drop (length s - length suf) s = suf)"

definition TrimPrefix :: "string \<Rightarrow> string \<Rightarrow> string" where
  "TrimPrefix s pre = (if HasPrefix s pre then drop (length pre) s else s)"

section \<open>The bucket-to-host registry (package kodofs)\<close>

text \<open>
  \<open>var hosts = make(map[string]string, 8)\<close> is process-wide state: the model passes it in
  and returns it updated, also when the call panics (the stores made before the panic stay).
\<close>

type_synonym registry = "string \<rightharpoonup> string"

text \<open>
  \<^verbatim>\<open>
  func Register(bucketHostPairs ...string) {
      for i, n := 0, len(bucketHostPairs); i < n; i += 2 {
          bucket, host := bucketHostPairs[i], bucketHostPairs[i+1]
          hosts[bucket] = host
      }
  }
  \<close>
  The loop is recursion on the index \<open>i\<close>; \<open>bucketHostPairs[i+1]\<close> panics when
  \<open>i + 1\<close> is not below the length.
\<close>

function Register_loop :: "string list \<Rightarrow> nat \<Rightarrow> registry \<Rightarrow> unit outcome \<times> registry" where
  "Register_loop bucketHostPairs i hosts =
     (let n = length bucketHostPairs in
      if i < n then
        (if i + 1 < n then
           Register_loop bucketHostPairs (i + 2)
             (hosts(bucketHostPairs ! i \<mapsto> bucketHostPairs ! (i + 1)))
         else (Panic (IndexOutOfRange (i + 1) n), hosts))
      else (Returned (), hosts))"
  by pat_completeness auto
termination
  by (relation "measure (\<lambda>(xs, i, h). length xs - i)") auto

declare Register_loop.simps [simp del]

definition Register :: "string list \<Rightarrow> registry \<Rightarrow> unit outcome \<times> registry" where
  "Register bucketHostPairs hosts = Register_loop bucketHostPairs 0 hosts"

text \<open>The (bucket, host) pairs of an argument list, in order; a last single argument has no pair.\<close>

fun pairs_of :: "string list \<Rightarrow> (string \<times> string) list" where
  "pairs_of (bucket # host # rest) = (bucket, host) # pairs_of rest"
| "pairs_of rest = []"

definition store_pairs :: "registry \<Rightarrow> (string \<times> string) list \<Rightarrow> registry" where
  "store_pairs hosts ps = foldl (\<lambda>m (bucket, host). m(bucket \<mapsto> host)) hosts ps"

section \<open>File infos (the implementations of \<open>fs.FileInfo\<close> that occur)\<close>

text \<open>
  \<open>fs.FileInfo\<close> is an interface; the values that reach the code are
  \<^item> \<open>XFileInfo name size Mtime\<close>: \<open>FileInfo{name, size, Mtime}\<close>, a remote object
    (\<open>IsDir\<close> is false); \<open>Mtime\<close> is \<open>None\<close> for the zero \<open>time.Time\<close> and
    otherwise the nanoseconds since the Unix epoch, an \<open>int64\<close>;
  \<^item> \<open>XDirInfo name\<close>: \<open>DirInfo{name}\<close>, a synthesized directory (\<open>Size\<close> is 0,
    \<open>IsDir\<close> is true);
  \<^item> \<open>fileInfoRemote fi\<close>: the wrapper of package \<open>cached\<close>, which changes
    \<open>Mode\<close> only;
  \<^item> \<open>SysFileInfo name size mode mtime\<close>: an info made outside the repository
    (by \<open>os.Lstat\<close>, or decoded by \<open>xdir.FileInfoFrom\<close>), given by what its
    methods return.
\<close>

datatype FileInfo =
    XFileInfo string "64 word" "64 word option"
  | XDirInfo string
  | fileInfoRemote FileInfo
  | SysFileInfo string "64 word" "32 word" "64 word option"

definition ModeDir :: "32 word" where "ModeDir = push_bit 31 1"
definition ModeSymlink :: "32 word" where "ModeSymlink = push_bit 27 1"
definition ModeIrregular :: "32 word" where "ModeIrregular = push_bit 19 1"

definition NewFileInfo :: "string \<Rightarrow> 64 word \<Rightarrow> FileInfo" where
  "NewFileInfo name sz = XFileInfo name sz None"

definition NewDirInfo :: "string \<Rightarrow> FileInfo" where
  "NewDirInfo name = XDirInfo name"

fun Name :: "FileInfo \<Rightarrow> string" where
  "Name (XFileInfo name sz mt) = name"
| "Name (XDirInfo name) = name"
| "Name (fileInfoRemote fi) = Name fi"
| "Name (SysFileInfo name sz mode mt) = name"

fun Size :: "FileInfo \<Rightarrow> 64 word" where
  "Size (XFileInfo name sz mt) = sz"
| "Size (XDirInfo name) = 0"
| "Size (fileInfoRemote fi) = Size fi"
| "Size (SysFileInfo name sz mode mt) = sz"

fun IsDir :: "FileInfo \<Rightarrow> bool" where
  "IsDir (XFileInfo name sz mt) = False"
| "IsDir (XDirInfo name) = True"
| "IsDir (fileInfoRemote fi) = IsDir fi"
| "IsDir (SysFileInfo name sz mode mt) = (mode AND ModeDir \<noteq> 0)"

text \<open>
  \<open>Mode\<close>; \<open>ModeRemote\<close> is the constant \<open>cached.ModeRemote\<close> of the library
  \<open>github.com/qiniu/x\<close>, taken as a parameter.
\<close>

fun Mode :: "32 word \<Rightarrow> FileInfo \<Rightarrow> 32 word" where
  "Mode ModeRemote (XFileInfo name sz mt) = ModeIrregular"
| "Mode ModeRemote (XDirInfo name) = ModeIrregular OR ModeDir"
| "Mode ModeRemote (fileInfoRemote fi) = Mode ModeRemote fi OR ModeRemote"
| "Mode ModeRemote (SysFileInfo name sz mode mt) = mode"

section \<open>The remote lister (package kodo)\<close>

text \<open>
  \<open>kodo.ListItem\<close> and \<open>kodo.ListFilesRet\<close>, with the fields the code reads. The listing
  call \<open>BucketManager.ListFilesWithContext(ctx, bucket, options...)\<close> goes to the network: it
  is a parameter of the model, a function from the bucket name and the options of the call to
  an error, or a page with its \<open>hasNext\<close> flag.
\<close>

record ListItem =
  Key :: string
  Fsize :: "64 word"
  PutTime :: "64 word"

record ListFilesRet =
  Marker :: string
  Items :: "ListItem list"
  CommonPrefixes :: "string list"

record ListInput =
  optPrefix :: string
  optDelimiter :: string
  optLimit :: int
  optMarker :: string

type_synonym ListFiles = "string \<Rightarrow> ListInput \<Rightarrow> error + (ListFilesRet \<times> bool)"

record Bucket =
  m :: ListFiles
  bucket :: string

text \<open>\<open>fromPutTime\<close>: \<open>time.Unix(0, putTime*100)\<close>; the product is an \<open>int64\<close> and wraps.\<close>

definition fromPutTime :: "64 word \<Rightarrow> 64 word option" where
  "fromPutTime putTime = Some (putTime * 100)"

text \<open>
  The first lines of \<open>WalkContext\<close> and of \<open>ReaddirContext\<close>, which turn \<open>dir\<close> into the
  listing prefix:
  \<^verbatim>\<open>
  if dir == "/" { dir = "" } else {
      dir = strings.TrimPrefix(dir, "/")
      if !strings.HasSuffix(dir, "/") { dir += "/" }
  }
  \<close>
\<close>

definition normalizeDir :: "string \<Rightarrow> string" where
  "normalizeDir dir =
     (if dir = ''/'' then ''''
      else (let d = TrimPrefix dir ''/'' in if \<not> HasSuffix d ''/'' then d @ ''/'' else d))"

subsection \<open>WalkContext\<close>

text \<open>
  The visitor \<open>WalkFunc = func(path string, info fs.FileInfo, err error) error\<close> is a Go
  closure: it may change state of its own and returns an error or nil. The model gives it a
  state \<open>'s\<close>, passed in and returned.
\<close>

type_synonym 's WalkFunc = "'s \<Rightarrow> string \<Rightarrow> FileInfo \<Rightarrow> error option \<Rightarrow> 's \<times> error option"

text \<open>
  The inner loop over the items of one page:
  \<^verbatim>\<open>
  for _, item := range ret.Items {
      key := item.Key
      name := key[len(dir):]
      fn("/"+key, xfs.NewFileInfo(name, item.Fsize), nil)
  }
  \<close>
  The call of \<open>fn\<close> is an expression statement: what \<open>fn\<close> returns is dropped.
\<close>

fun WalkContext_items :: "string \<Rightarrow> 's WalkFunc \<Rightarrow> ListItem list \<Rightarrow> 's \<Rightarrow> 's \<times> panic option" where
  "WalkContext_items dir fn [] s = (s, None)"
| "WalkContext_items dir fn (item # items) s =
     (let key = Key item in
      case slice_from key (int (length dir)) of
        Inl p \<Rightarrow> (s, Some p)
      | Inr name \<Rightarrow>
          (let (s', r) = fn s (''/'' @ key) (NewFileInfo name (Fsize item)) None
           in WalkContext_items dir fn items s'))"

text \<open>
  The outer loop \<open>for { ... }\<close>: one round fetches one page. It ends when the fetch fails
  (\<open>return e\<close>) or the page is the last (\<open>break\<close>, then \<open>return\<close> with \<open>err\<close> nil);
  nothing bounds the number of rounds, so the model counts them down from \<open>fuel\<close>.
\<close>

fun WalkContext_loop ::
  "nat \<Rightarrow> Bucket \<Rightarrow> string \<Rightarrow> 's WalkFunc \<Rightarrow> string \<Rightarrow> 's \<Rightarrow> 's \<times> error option outcome" where
  "WalkContext_loop 0 b dir fn marker s = (s, OutOfFuel)"
| "WalkContext_loop (Suc fuel) b dir fn marker s =
     (case m b (bucket b) \<lparr>optPrefix = dir, optDelimiter = '''', optLimit = 1000, optMarker = marker\<rparr> of
        Inl e \<Rightarrow> (s, Returned (Some e))
      | Inr (ret, hasNext) \<Rightarrow>
          (case WalkContext_items dir fn (Items ret) s of
             (s', Some p) \<Rightarrow> (s', Panic p)
           | (s', None) \<Rightarrow>
               if \<not> hasNext then (s', Returned None)
               else WalkContext_loop fuel b dir fn (Marker ret) s'))"

definition WalkContext ::
  "nat \<Rightarrow> Bucket \<Rightarrow> string \<Rightarrow> 's WalkFunc \<Rightarrow> 's \<Rightarrow> 's \<times> error option outcome" where
  "WalkContext fuel b dir fn s = WalkContext_loop fuel b (normalizeDir dir) fn '''' s"

subsection \<open>ReaddirContext\<close>

text \<open>
  \<^verbatim>\<open>
  for _, item := range ret.Items {
      key := item.Key
      name := key[len(dir):]
      fi := xfs.NewFileInfo(name, item.Fsize)
      fi.Mtime = fromPutTime(item.PutTime)
      fis = append(fis, fi)
  }
  for _, key := range ret.CommonPrefixes {
      name := key[len(dir) : len(key)-1]
      fis = append(fis, xfs.NewDirInfo(name))
  }
  \<close>
\<close>

fun ReaddirContext_items :: "string \<Rightarrow> ListItem list \<Rightarrow> FileInfo list \<Rightarrow> panic + FileInfo list" where
  "ReaddirContext_items dir [] fis = Inr fis"
| "ReaddirContext_items dir (item # items) fis =
     (let key = Key item in
      case slice_from key (int (length dir)) of
        Inl p \<Rightarrow> Inl p
      | Inr name \<Rightarrow>
          ReaddirContext_items dir items (fis @ [XFileInfo name (Fsize item) (fromPutTime (PutTime item))]))"

fun ReaddirContext_prefixes :: "string \<Rightarrow> string list \<Rightarrow> FileInfo list \<Rightarrow> panic + FileInfo list" where
  "ReaddirContext_prefixes dir [] fis = Inr fis"
| "ReaddirContext_prefixes dir (key # keys) fis =
     (case slice key (int (length dir)) (int (length key) - 1) of
        Inl p \<Rightarrow> Inl p
      | Inr name \<Rightarrow> ReaddirContext_prefixes dir keys (fis @ [NewDirInfo name]))"

fun ReaddirContext_loop ::
  "nat \<Rightarrow> Bucket \<Rightarrow> string \<Rightarrow> string \<Rightarrow> FileInfo list \<Rightarrow> (error + FileInfo list) outcome" where
  "ReaddirContext_loop 0 b dir marker fis = OutOfFuel"
| "ReaddirContext_loop (Suc fuel) b dir marker fis =
     (case m b (bucket b) \<lparr>optPrefix = dir, optDelimiter = ''/'', optLimit = 1000, optMarker = marker\<rparr> of
        Inl e \<Rightarrow> Returned (Inl e)
      | Inr (ret, hasNext) \<Rightarrow>
          (case ReaddirContext_items dir (Items ret) fis of
             Inl p \<Rightarrow> Panic p
           | Inr fis1 \<Rightarrow>
               (case ReaddirContext_prefixes dir (CommonPrefixes ret) fis1 of
                  Inl p \<Rightarrow> Panic p
                | Inr fis2 \<Rightarrow>
                    if \<not> hasNext then Returned (Inr fis2)
                    else ReaddirContext_loop fuel b dir (Marker ret) fis2)))"

definition ReaddirContext :: "nat \<Rightarrow> Bucket \<Rightarrow> string \<Rightarrow> (error + FileInfo list) outcome" where
  "ReaddirContext fuel b dir = ReaddirContext_loop fuel b (normalizeDir dir) '''' []"

subsection \<open>ListIterator\<close>

record ListObject =
  objKey :: string
  objModTime :: "64 word option"
  objSize :: "64 word"
  objIsDir :: bool

record listPage =
  Objects :: "ListItem list"
  NextPageToken :: string

record listPagedOptions =
  Prefix :: string
  Delimiter :: string
  PageSize :: int
  PageToken :: string

text \<open>
  The iterator. \<open>page\<close> is a pointer, nil before the first fetch; \<open>nextIdx\<close> starts at
  0 and is only ever incremented, so it is a natural number.
\<close>

record ListIterator =
  b :: Bucket
  opts :: listPagedOptions
  page :: "listPage option"
  nextIdx :: nat
  isLastPage :: bool

text \<open>\<open>Bucket.listPaged\<close>: one call of the listing API, the page and \<open>!hasNext\<close>.\<close>

definition listPaged :: "Bucket \<Rightarrow> listPagedOptions \<Rightarrow> error + (listPage \<times> bool)" where
  "listPaged bkt opt =
     (case m bkt (bucket bkt)
             \<lparr>optPrefix = Prefix opt, optDelimiter = Delimiter opt,
              optLimit = PageSize opt, optMarker = PageToken opt\<rparr> of
        Inl err \<Rightarrow> Inl err
      | Inr (ret, hasNext) \<Rightarrow> Inr (\<lparr>Objects = Items ret, NextPageToken = Marker ret\<rparr>, \<not> hasNext))"

text \<open>
  The object returned for a list item:
  \<^verbatim>\<open>
  mtime := fromPutTime(obj.PutTime)
  key := obj.Key
  isDir := strings.HasSuffix(key, "/")
  if isDir && key != "/" { key = key[:len(key)-1] }
  return &ListObject{key, mtime, obj.Fsize, isDir}, nil
  \<close>
\<close>

definition toListObject :: "ListItem \<Rightarrow> ListObject" where
  "toListObject obj =
     (let key = Key obj; isDir = HasSuffix key ''/'' in
      \<lparr>objKey = (if isDir \<and> key \<noteq> ''/'' then take (length key - 1) key else key),
       objModTime = fromPutTime (PutTime obj), objSize = Fsize obj, objIsDir = isDir\<rparr>)"

text \<open>
  The block \<open>if i.page != nil { ... }\<close> of \<open>Next\<close>: it returns the next object of the
  page or \<open>io.EOF\<close> (\<open>Inl\<close>), or falls through to the loading of a page, with the page
  token set (\<open>Inr\<close>).
\<close>

definition Next_inPage :: "ListIterator \<Rightarrow> ((error + ListObject) \<times> ListIterator) + ListIterator" where
  "Next_inPage i =
     (case page i of
        None \<Rightarrow> Inr i
      | Some p \<Rightarrow>
          if nextIdx i < length (Objects p)
          then Inl (Inr (toListObject (Objects p ! nextIdx i)), i\<lparr>nextIdx := nextIdx i + 1\<rparr>)
          else if isLastPage i then Inl (Inl EOF, i)
          else Inr (i\<lparr>opts := (opts i)\<lparr>PageToken := NextPageToken p\<rparr>\<rparr>))"

text \<open>
  \<open>Next\<close> loads a page and calls itself. Nothing in the code bounds the recursion, so the
  model is a partial function: \<open>None\<close> is the call that never returns.
\<close>

partial_function (option) Next :: "ListIterator \<Rightarrow> ((error + ListObject) \<times> ListIterator) option" where
  "Next i =
     (case Next_inPage i of
        Inl res \<Rightarrow> Some res
      | Inr i1 \<Rightarrow>
          (case listPaged (b i1) (opts i1) of
             Inl err \<Rightarrow> Some (Inl err, i1)
           | Inr (p, isLast) \<Rightarrow> Next (i1\<lparr>page := Some p, nextIdx := 0, isLastPage := isLast\<rparr>)))"

declare Next.simps [code]

text \<open>\<open>Bucket.List\<close>: a fresh iterator; nil options are the zero value.\<close>

definition List :: "Bucket \<Rightarrow> (string \<times> string) option \<Rightarrow> ListIterator" where
  "List bkt lopts =
     (let (pre, delim) = (case lopts of None \<Rightarrow> ('''', '''') | Some o' \<Rightarrow> o') in
      \<lparr>b = bkt,
       opts = \<lparr>Prefix = pre, Delimiter = delim, PageSize = 1000, PageToken = ''''\<rparr>,
       page = None, nextIdx = 0, isLastPage = False\<rparr>)"

section \<open>The bucket as a file system (package kodofs)\<close>

text \<open>
  \<open>path.Base\<close> of the standard library: the last element of a path, after the trailing
  slashes are removed; \<open>"."\<close> for the empty path and \<open>"/"\<close> for a path of slashes only.
\<close>

definition path_Base :: "string \<Rightarrow> string" where
  "path_Base p =
     (if p = [] then ''.''
      else (let p1 = rev (dropWhile (\<lambda>c. c = CHR ''/'') (rev p));
                p2 = rev (takeWhile (\<lambda>c. c \<noteq> CHR ''/'') (rev p1))
            in if p2 = [] then ''/'' else p2))"

text \<open>
  An \<open>http.File\<close>: the handle of an object that the opener returned (opaque, of type
  \<open>'f\<close>), or the directory handle \<open>xfs.Dir(dirInfo, fis)\<close>.
\<close>

datatype 'f File =
    ObjectFile 'f
  | Dir FileInfo "FileInfo list"

text \<open>
  The bucket of package kodofs. \<open>prepare\<close> gives, for a name, the opener; the opener's
  \<open>Open(ctx, url)\<close> fetches one object over the network and is a parameter of the model.
\<close>

record 'f kodofsBucket =
  bkt :: Bucket
  prepare :: "string \<Rightarrow> string \<Rightarrow> error + 'f"
  host :: string

definition isIndexPage :: "string \<Rightarrow> bool" where
  "isIndexPage name = HasSuffix name ''/index.html''"

text \<open>
  The second half of \<open>Bucket.Open\<close>, the directory synthesis:
  \<^verbatim>\<open>
  fis, err := b.bkt.ReaddirContext(ctx, name)
  if err != nil { return }
  if len(fis) == 0 { return nil, fs.ErrNotExist }
  fname := path.Base(name)
  return xfs.Dir(xfs.NewDirInfo(fname), fis), nil
  \<close>
\<close>

definition Open_dir :: "nat \<Rightarrow> 'f kodofsBucket \<Rightarrow> string \<Rightarrow> (error + 'f File) outcome" where
  "Open_dir fuel bk name =
     (case ReaddirContext fuel (bkt bk) name of
        Returned (Inl err) \<Rightarrow> Returned (Inl err)
      | Returned (Inr fis) \<Rightarrow>
          if length fis = 0 then Returned (Inl ErrNotExist)
          else Returned (Inr (Dir (NewDirInfo (path_Base name)) fis))
      | Panic p \<Rightarrow> Panic p
      | OutOfFuel \<Rightarrow> OutOfFuel)"

text \<open>
  \<open>Bucket.Open\<close>. The first half:
  \<^verbatim>\<open>
  ctx, opener := b.prepare(name)
  if name != "/" {
      f, err = opener.Open(ctx, b.host+name)
      if err == nil || isIndexPage(name) || !os.IsNotExist(err) { return }
  }
  \<close>
\<close>

definition Open :: "nat \<Rightarrow> 'f kodofsBucket \<Rightarrow> string \<Rightarrow> (error + 'f File) outcome" where
  "Open fuel bk name =
     (let opener = prepare bk name in
      if name \<noteq> ''/'' then
        (case opener (host bk @ name) of
           Inr f \<Rightarrow> Returned (Inr (ObjectFile f))
         | Inl err \<Rightarrow>
             if isIndexPage name \<or> \<not> IsNotExist err then Returned (Inl err)
             else Open_dir fuel bk name)
      else Open_dir fuel bk name)"

text \<open>\<open>DirInfo.Close\<close>: \<open>return nil\<close>; nothing is changed.\<close>

definition DirInfo_Close :: "FileInfo \<Rightarrow> error option" where
  "DirInfo_Close p = None"

text \<open>
  Modelled from the spec: the methods of the handle \<open>xfs.Dir(dirInfo, fis)\<close>, whose code
  is in the library \<open>github.com/qiniu/x\<close> and not in this repository. The spec: a
  directory handle "whose readdir returns those children; Close on this handle is a
  no-op". The handle embeds its \<open>DirInfo\<close>, whose \<open>Close\<close> is above; closing the
  handle of an object is the opener's business (\<open>closeObject\<close>).
\<close>

fun Readdir :: "'f File \<Rightarrow> error + FileInfo list" where
  "Readdir (Dir d fis) = Inr fis"
| "Readdir (ObjectFile f) = Inl ErrInvalid"

fun Close :: "('f \<Rightarrow> error option \<times> 'f) \<Rightarrow> 'f File \<Rightarrow> error option \<times> 'f File" where
  "Close closeObject (Dir d fis) = (DirInfo_Close d, Dir d fis)"
| "Close closeObject (ObjectFile f) = (let (e, f') = closeObject f in (e, ObjectFile f'))"

section \<open>Base64, URL-safe alphabet (\<open>base64.URLEncoding\<close> of the standard library)\<close>

text \<open>
  A Go \<open>[]byte\<close> is a list of \<open>char\<close>, an 8-bit value; \<open>of_char\<close> reads it as a number
  below 256. The shifts and masks of the encoder are written as division and remainder by
  powers of two, and the \<open>|\<close> of fields that do not overlap as a sum.
\<close>

definition encodeURL :: string where
  "encodeURL = ''ABCDEFGHIJKLMNOPQRSTUVWXYZabcdefghijklmnopqrstuvwxyz0123456789-_''"

definition padChar :: char where
  "padChar = CHR ''=''"

definition enc64 :: "nat \<Rightarrow> char" where
  "enc64 v = encodeURL ! (v mod 64)"

text \<open>
  \<open>EncodeToString\<close>: three bytes give four characters,
  \<open>val := b0<<16 | b1<<8 | b2\<close> and \<open>encode[val>>18&0x3F]\<close>, ..., \<open>encode[val&0x3F]\<close>;
  a rest of two bytes gives three characters and one \<open>=\<close>, a rest of one byte two
  characters and \<open>==\<close>.
\<close>

fun EncodeToString :: "string \<Rightarrow> string" where
  "EncodeToString (b0 # b1 # b2 # src) =
     (let val = of_char b0 * 65536 + of_char b1 * 256 + of_char b2 in
      enc64 (val div 262144) # enc64 (val div 4096) # enc64 (val div 64) # enc64 val #
      EncodeToString src)"
| "EncodeToString [b0, b1] =
     (let val = of_char b0 * 65536 + of_char b1 * 256 in
      [enc64 (val div 262144), enc64 (val div 4096), enc64 (val div 64), padChar])"
| "EncodeToString [b0] =
     (let val = of_char b0 * 65536 in
      [enc64 (val div 262144), enc64 (val div 4096), padChar, padChar])"
| "EncodeToString [] = []"

text \<open>The decode map: the position of a character in the alphabet.\<close>

definition decodeMap :: "char \<Rightarrow> nat option" where
  "decodeMap c = map_of (zip encodeURL [0..<64]) c"

text \<open>
  \<open>DecodeString\<close>: the characters \<open>\r\<close> and \<open>\n\<close> are skipped wherever they are; the
  others are read four at a time. A quantum is four characters of the alphabet (three
  bytes), or, at the very end only, two characters and \<open>==\<close> (one byte) or three
  characters and \<open>=\<close> (two bytes). Anything else is a \<open>CorruptInputError\<close>. (The
  encoding is not strict: the bits of a last quantum that belong to no byte are not
  checked.)
\<close>

fun decodeQuanta :: "string \<Rightarrow> error + string" where
  "decodeQuanta [] = Inr []"
| "decodeQuanta (c0 # c1 # c2 # c3 # src) =
     (case (decodeMap c0, decodeMap c1) of
        (Some v0, Some v1) \<Rightarrow>
          if c2 = padChar then
            (if c3 = padChar \<and> src = []
             then Inr [char_of ((v0 * 262144 + v1 * 4096) div 65536)]
             else Inl CorruptInputError)
          else
            (case decodeMap c2 of
               None \<Rightarrow> Inl CorruptInputError
             | Some v2 \<Rightarrow>
                 if c3 = padChar then
                   (if src = []
                    then (let val = v0 * 262144 + v1 * 4096 + v2 * 64
                          in Inr [char_of (val div 65536), char_of (val div 256)])
                    else Inl CorruptInputError)
                 else
                   (case decodeMap c3 of
                      None \<Rightarrow> Inl CorruptInputError
                    | Some v3 \<Rightarrow>
                        (case decodeQuanta src of
                           Inl err \<Rightarrow> Inl err
                         | Inr bs \<Rightarrow>
                             (let val = v0 * 262144 + v1 * 4096 + v2 * 64 + v3
                              in Inr (char_of (val div 65536) # char_of (val div 256) #
                                      char_of val # bs)))))
      | _ \<Rightarrow> Inl CorruptInputError)"
| "decodeQuanta src = Inl CorruptInputError"

definition DecodeString :: "string \<Rightarrow> error + string" where
  "DecodeString s = decodeQuanta (filter (\<lambda>c. c \<noteq> CHR 0x0D \<and> c \<noteq> CHR 0x0A) s)"

section \<open>The local disk\<close>

text \<open>
  The local file system, as far as package \<open>cached\<close> uses it: what is at each path (a
  directory, a symbolic link with its target, or a regular file with its contents), and
  the paths at which the system refuses to create or write anything (no permission, no
  space, no parent directory, ...), which the code cannot tell apart. Paths are compared
  as strings; times are not kept.
\<close>

datatype node =
    DirNode
  | SymlinkNode string
  | FileNode string

record localfs =
  nodes :: "string \<rightharpoonup> node"
  refused :: "string \<Rightarrow> bool"

text \<open>\<open>os.Mkdir\<close> and \<open>os.Symlink\<close> create a new entry; they fail if there is one already.\<close>

definition os_Mkdir :: "string \<Rightarrow> localfs \<Rightarrow> error option \<times> localfs" where
  "os_Mkdir name fs =
     (if nodes fs name \<noteq> None then (Some (PathError ''mkdir'' name ErrExist), fs)
      else if refused fs name then (Some (PathError ''mkdir'' name ErrPermission), fs)
      else (None, fs\<lparr>nodes := (nodes fs)(name \<mapsto> DirNode)\<rparr>))"

definition os_Symlink :: "string \<Rightarrow> string \<Rightarrow> localfs \<Rightarrow> error option \<times> localfs" where
  "os_Symlink oldname newname fs =
     (if nodes fs newname \<noteq> None then (Some (PathError ''symlink'' newname ErrExist), fs)
      else if refused fs newname then (Some (PathError ''symlink'' newname ErrPermission), fs)
      else (None, fs\<lparr>nodes := (nodes fs)(newname \<mapsto> SymlinkNode oldname)\<rparr>))"

definition os_Readlink :: "string \<Rightarrow> localfs \<Rightarrow> error + string" where
  "os_Readlink name fs =
     (case nodes fs name of
        Some (SymlinkNode dest) \<Rightarrow> Inr dest
      | Some other \<Rightarrow> Inl (PathError ''readlink'' name ErrInvalid)
      | None \<Rightarrow> Inl (PathError ''readlink'' name ErrNotExist))"

text \<open>
  \<open>os.Lstat\<close> does not follow a link. The info has the last element of the path as its
  name, the mode bits of the kind of the entry, and as size the length of the contents or
  of the link's target.
\<close>

definition os_Lstat :: "string \<Rightarrow> localfs \<Rightarrow> error + FileInfo" where
  "os_Lstat name fs =
     (case nodes fs name of
        None \<Rightarrow> Inl (PathError ''lstat'' name ErrNotExist)
      | Some DirNode \<Rightarrow> Inr (SysFileInfo (path_Base name) 0 ModeDir None)
      | Some (SymlinkNode dest) \<Rightarrow>
          Inr (SysFileInfo (path_Base name) (of_nat (length dest)) ModeSymlink None)
      | Some (FileNode bytes) \<Rightarrow>
          Inr (SysFileInfo (path_Base name) (of_nat (length bytes)) 0 None))"

text \<open>
  \<open>os.WriteFile\<close> creates the file or truncates it, and follows symbolic links: a link
  with a relative target is resolved in the directory of the link. At most \<open>hops\<close>
  links are followed (40 on Linux).
\<close>

definition linkTarget :: "string \<Rightarrow> string \<Rightarrow> string" where
  "linkTarget name dest =
     (if HasPrefix dest ''/'' then dest
      else rev (dropWhile (\<lambda>c. c \<noteq> CHR ''/'') (rev name)) @ dest)"

fun os_WriteFile_follow :: "nat \<Rightarrow> string \<Rightarrow> string \<Rightarrow> localfs \<Rightarrow> error option \<times> localfs" where
  "os_WriteFile_follow 0 name bytes fs = (Some (PathError ''open'' name (ErrOther ''ELOOP'')), fs)"
| "os_WriteFile_follow (Suc hops) name bytes fs =
     (case nodes fs name of
        Some (SymlinkNode dest) \<Rightarrow> os_WriteFile_follow hops (linkTarget name dest) bytes fs
      | Some DirNode \<Rightarrow> (Some (PathError ''open'' name (ErrOther ''EISDIR'')), fs)
      | other \<Rightarrow>
          if refused fs name then (Some (PathError ''open'' name ErrPermission), fs)
          else (None, fs\<lparr>nodes := (nodes fs)(name \<mapsto> FileNode bytes)\<rparr>))"

definition os_WriteFile :: "string \<Rightarrow> string \<Rightarrow> localfs \<Rightarrow> error option \<times> localfs" where
  "os_WriteFile name bytes fs = os_WriteFile_follow 40 name bytes fs"

section \<open>The local stub store (package cached)\<close>

text \<open>
  What the package takes from outside the repository and the standard library:
  the serializer of file infos of \<open>github.com/qiniu/x/http/fs/cached/dir\<close>
  (\<open>xdir.BytesFileInfo\<close>, \<open>xdir.FileInfoFrom\<close>) and \<open>filepath.Join\<close>. They are
  parameters of the model.
\<close>

record ext =
  BytesFileInfo :: "FileInfo \<Rightarrow> string"
  FileInfoFrom :: "string \<Rightarrow> error + FileInfo"
  Join :: "string \<Rightarrow> string \<Rightarrow> string"

definition dirListCacheFile :: string where
  "dirListCacheFile = ''.bktls.cache''"

definition checkDirCached :: "ext \<Rightarrow> string \<Rightarrow> localfs \<Rightarrow> FileInfo option" where
  "checkDirCached x dir fs =
     (let cacheFile = Join x dir dirListCacheFile in
      case os_Lstat cacheFile fs of Inl err \<Rightarrow> None | Inr fi \<Rightarrow> Some fi)"

definition touchDirCached :: "ext \<Rightarrow> string \<Rightarrow> localfs \<Rightarrow> error option \<times> localfs" where
  "touchDirCached x dir fs =
     (let cacheFile = Join x dir dirListCacheFile in os_WriteFile cacheFile [] fs)"

text \<open>
  \<^verbatim>\<open>
  func writeStubFile(localFile string, fi fs.FileInfo) error {
      if fi.IsDir() { return os.Mkdir(localFile, 0755) }
      fi = &fileInfoRemote{fi}
      b := xdir.BytesFileInfo(fi)
      dest := base64.URLEncoding.EncodeToString(b)
      return os.Symlink(dest, localFile)
  }
  \<close>
\<close>

definition writeStubFile :: "ext \<Rightarrow> string \<Rightarrow> FileInfo \<Rightarrow> localfs \<Rightarrow> error option \<times> localfs" where
  "writeStubFile x localFile fi fs =
     (if IsDir fi then os_Mkdir localFile fs
      else (let fi' = fileInfoRemote fi;
                bytes = BytesFileInfo x fi';
                dest = EncodeToString bytes
            in os_Symlink dest localFile fs))"

text \<open>
  \<^verbatim>\<open>
  func readStubFile(localFile string, fi fs.FileInfo) fs.FileInfo {
      dest, e1 := os.Readlink(localFile)
      if e1 == nil {
          if b, e2 := base64.URLEncoding.DecodeString(dest); e2 == nil {
              if ret, e3 := xdir.FileInfoFrom(b); e3 == nil { return ret }
          }
      }
      return fi
  }
  \<close>
\<close>

definition readStubFile :: "ext \<Rightarrow> string \<Rightarrow> FileInfo \<Rightarrow> localfs \<Rightarrow> FileInfo" where
  "readStubFile x localFile fi fs =
     (case os_Readlink localFile fs of
        Inl e1 \<Rightarrow> fi
      | Inr dest \<Rightarrow>
          (case DecodeString dest of
             Inl e2 \<Rightarrow> fi
           | Inr bytes \<Rightarrow>
               (case FileInfoFrom x bytes of
                  Inl e3 \<Rightarrow> fi
                | Inr ret \<Rightarrow> ret)))"

text \<open>
  The stub-writing pass of \<open>SyncOpen\<close>, the body of its \<open>go func() { ... }()\<close>, run on
  its own; \<open>base\<close> is \<open>filepath.Join(local, name)\<close>.
  \<^verbatim>\<open>
  nError := 0
  for _, fi := range fis {
      itemFile := base + "/" + fi.Name()
      if writeStubFile(itemFile, fi) != nil { nError++ }
  }
  if nError == 0 { touchDirCached(base) }
  else { log.Printf("[WARN] writeStubFile fail (%d errors)", nError) }
  \<close>
  The loop gives the count and the disk. The pass ends in one of two ways:
  \<open>Touched e\<close>, it called \<open>touchDirCached\<close>, which returned \<open>e\<close> (the code drops it), or
  \<open>Warned n\<close>, it logged the warning with the count \<open>n\<close>.
\<close>

fun SyncOpen_stubLoop :: "ext \<Rightarrow> string \<Rightarrow> FileInfo list \<Rightarrow> nat \<Rightarrow> localfs \<Rightarrow> nat \<times> localfs" where
  "SyncOpen_stubLoop x base [] nError fs = (nError, fs)"
| "SyncOpen_stubLoop x base (fi # fis) nError fs =
     (let itemFile = base @ ''/'' @ Name fi;
          (e, fs') = writeStubFile x itemFile fi fs
      in SyncOpen_stubLoop x base fis (if e \<noteq> None then nError + 1 else nError) fs')"

datatype passEnd =
    Touched "error option"
  | Warned nat

definition SyncOpen_stubPass :: "ext \<Rightarrow> string \<Rightarrow> FileInfo list \<Rightarrow> localfs \<Rightarrow> passEnd \<times> localfs" where
  "SyncOpen_stubPass x base fis fs =
     (let (nError, fs1) = SyncOpen_stubLoop x base fis 0 fs in
      if nError = 0 then (let (e, fs2) = touchDirCached x base fs1 in (Touched e, fs2))
      else (Warned nError, fs1))"

text \<open>
  What each child stub write of the pass returned, in order: the write for a child runs
  on the disk as the writes before it left it.
\<close>

fun stubWrites :: "ext \<Rightarrow> string \<Rightarrow> FileInfo list \<Rightarrow> localfs \<Rightarrow> error option list" where
  "stubWrites x base [] fs = []"
| "stubWrites x base (fi # fis) fs =
     (let (e, fs') = writeStubFile x (base @ ''/'' @ Name fi) fi fs
      in e # stubWrites x base fis fs')"

text \<open>The child \<open>fi\<close> has its stub at \<open>path\<close>: a directory for a directory, else the link.\<close>

definition hasStub :: "ext \<Rightarrow> localfs \<Rightarrow> string \<Rightarrow> FileInfo \<Rightarrow> bool" where
  "hasStub x fs path fi =
     (if IsDir fi then nodes fs path = Some DirNode
      else nodes fs path = Some (SymlinkNode (EncodeToString (BytesFileInfo x (fileInfoRemote fi)))))"

section \<open>Mount URLs (package kodoutil)\<close>








section \<open>Notions used to state the properties\<close>

subsection \<open>Base64\<close>

text \<open>The number that the four 6-bit digits of \<open>n\<close> give back (used in the proofs only).\<close>

definition resext :: "nat \<Rightarrow> nat" where
  "resext n =
     n div 262144 mod 64 * 262144 + n div 4096 mod 64 * 4096 + n div 64 mod 64 * 64 + n mod 64"


subsection \<open>Visits of a walk\<close>

text \<open>
  The state a visitor \<open>fn\<close> is left in by one call on an entry, whatever error it
  returns.
\<close>

definition visit :: "'s WalkFunc \<Rightarrow> 's \<Rightarrow> string \<times> FileInfo \<Rightarrow> 's" where
  "visit fn s e = fst (fn s (fst e) (snd e) None)"

text \<open>
  The entries that a walk lists, with no visitor: for a page, the path \<open>"/" + key\<close> and
  the info (name \<open>key[len(dir):]\<close>, size) of every item, in order, up to an item whose
  key is too short to slice; for the walk, the entries of the pages that are fetched by
  following the markers, up to a failed fetch, the last page, or the end of the fuel.
\<close>

fun page_entries :: "string \<Rightarrow> ListItem list \<Rightarrow> (string \<times> FileInfo) list \<times> panic option" where
  "page_entries dir [] = ([], None)"
| "page_entries dir (item # items) =
     (case slice_from (Key item) (int (length dir)) of
        Inl p \<Rightarrow> ([], Some p)
      | Inr name \<Rightarrow>
          (let (es, r) = page_entries dir items
           in ((''/'' @ Key item, NewFileInfo name (Fsize item)) # es, r)))"

fun walk_entries ::
  "nat \<Rightarrow> Bucket \<Rightarrow> string \<Rightarrow> string \<Rightarrow> (string \<times> FileInfo) list \<times> error option outcome" where
  "walk_entries 0 bk dir marker = ([], OutOfFuel)"
| "walk_entries (Suc fuel) bk dir marker =
     (case m bk (bucket bk) \<lparr>optPrefix = dir, optDelimiter = '''', optLimit = 1000, optMarker = marker\<rparr> of
        Inl e \<Rightarrow> ([], Returned (Some e))
      | Inr (ret, hasNext) \<Rightarrow>
          (case page_entries dir (Items ret) of
             (es, Some p) \<Rightarrow> (es, Panic p)
           | (es, None) \<Rightarrow>
               if \<not> hasNext then (es, Returned None)
               else (let (es', r) = walk_entries fuel bk dir (Marker ret) in (es @ es', r))))"

subsection \<open>Conditions on what the listing API returns\<close>

text \<open>Every page that the API returns for the bucket is non-empty or flagged as the last.\<close>

definition pages_nonempty_or_last :: "Bucket \<Rightarrow> bool" where
  "pages_nonempty_or_last bk =
     (\<forall>inp ret hasNext. m bk (bucket bk) inp = Inr (ret, hasNext) \<longrightarrow> Items ret \<noteq> [] \<or> \<not> hasNext)"

text \<open>
  The keys of a page lie under the prefix \<open>dir\<close>: every item key starts with it, and every
  common prefix starts with it and is longer.
\<close>

definition keys_under :: "string \<Rightarrow> ListFilesRet \<Rightarrow> bool" where
  "keys_under dir ret =
     ((\<forall>item \<in> set (Items ret). HasPrefix (Key item) dir) \<and>
      (\<forall>key \<in> set (CommonPrefixes ret). HasPrefix key dir \<and> length dir < length key))"

text \<open>Every page that the API returns for the prefix \<open>dir\<close> has its keys under it.\<close>

definition lists_under :: "Bucket \<Rightarrow> string \<Rightarrow> bool" where
  "lists_under bk dir =
     (\<forall>inp ret hasNext. optPrefix inp = dir \<longrightarrow>
        m bk (bucket bk) inp = Inr (ret, hasNext) \<longrightarrow> keys_under dir ret)"

text \<open>
  The info \<open>fi\<close> names an entry of the page: put after the prefix, its name gives back an
  item key, or, for a directory, a common prefix without its last character.
\<close>

definition listed_as :: "string \<Rightarrow> ListFilesRet \<Rightarrow> FileInfo \<Rightarrow> bool" where
  "listed_as dir ret fi =
     (if IsDir fi then \<exists>key \<in> set (CommonPrefixes ret). \<exists>c. key = dir @ Name fi @ [c]
      else \<exists>item \<in> set (Items ret). Key item = dir @ Name fi)"

definition named_from :: "Bucket \<Rightarrow> string \<Rightarrow> FileInfo \<Rightarrow> bool" where
  "named_from bk dir fi =
     (\<exists>inp ret hasNext. optPrefix inp = dir \<and> m bk (bucket bk) inp = Inr (ret, hasNext) \<and>
        listed_as dir ret fi)"

definition itemInfo :: "string \<Rightarrow> ListItem \<Rightarrow> FileInfo" where
  "itemInfo dir item =
     XFileInfo (drop (length dir) (Key item)) (Fsize item) (fromPutTime (PutTime item))"

definition prefixInfo :: "string \<Rightarrow> string \<Rightarrow> FileInfo" where
  "prefixInfo dir key = XDirInfo (butlast (drop (length dir) key))"

text \<open>An iterator that can only load one more empty page that is not the last.\<close>

definition emptyPages :: Bucket where
  "emptyPages =
     \<lparr>m = (\<lambda>bn inp. Inr (\<lparr>Marker = ''next'', Items = [], CommonPrefixes = []\<rparr>, True)),
      bucket = ''b''\<rparr>"

definition stuck :: "ListIterator \<Rightarrow> bool" where
  "stuck i =
     (b i = emptyPages \<and>
      (case page i of None \<Rightarrow> True | Some p \<Rightarrow> Objects p = [] \<and> \<not> isLastPage i))"

subsection \<open>The serializer\<close>

text \<open>
  The serializer of the library gives back the name, the size and the is-directory flag of
  the record \<open>fi\<close>, serialized as the stub writer does it (wrapped as remote).
\<close>

definition codec_preserves :: "ext \<Rightarrow> FileInfo \<Rightarrow> bool" where
  "codec_preserves x fi =
     (case FileInfoFrom x (BytesFileInfo x (fileInfoRemote fi)) of
        Inl err \<Rightarrow> False
      | Inr ret \<Rightarrow> Name ret = Name fi \<and> Size ret = Size fi \<and> IsDir ret = IsDir fi)"

subsection \<open>The sentinel before a pass\<close>

text \<open>
  The directory \<open>base\<close> has no sentinel yet, and no child of the listing has the path of
  the sentinel.
\<close>

definition fresh_sentinel :: "ext \<Rightarrow> string \<Rightarrow> FileInfo list \<Rightarrow> localfs \<Rightarrow> bool" where
  "fresh_sentinel x base fis fs =
     (checkDirCached x base fs = None \<and>
      (\<forall>fi \<in> set fis. base @ ''/'' @ Name fi \<noteq> Join x base dirListCacheFile))"

subsection \<open>A disk and a serializer for concrete runs\<close>

text \<open>
  A serializer that keeps the name only and gives every record the size 100; it refuses
  the empty byte string. A disk with the directory \<open>/r/a\<close>, on which nothing can be
  created at \<open>/r/a/z\<close>; the same disk with a stub, two links that are no stubs and
  a regular file; a disk with the directory \<open>/r/a\<close> on which the sentinel of that
  directory cannot be created; and the first disk with the sentinel of \<open>/r/a\<close> already
  there.
\<close>

definition sentinelRefusedDisk :: localfs where
  "sentinelRefusedDisk =
     \<lparr>nodes = [''/r/a'' \<mapsto> DirNode], refused = (\<lambda>path. path = ''/r/a/.bktls.cache'')\<rparr>"

definition cachedDisk :: localfs where
  "cachedDisk =
     \<lparr>nodes = [''/r/a'' \<mapsto> DirNode, ''/r/a/.bktls.cache'' \<mapsto> FileNode ''''],
      refused = (\<lambda>path. path = ''/r/a/z'')\<rparr>"

definition demoExt :: ext where
  "demoExt =
     \<lparr>BytesFileInfo = (\<lambda>fi. Name fi),
      FileInfoFrom = (\<lambda>bytes. if bytes = [] then Inl ErrInvalid
                               else Inr (SysFileInfo bytes 100 (ModeSymlink OR ModeIrregular) None)),
      Join = (\<lambda>dir name. dir @ ''/'' @ name)\<rparr>"

definition demoDisk :: localfs where
  "demoDisk = \<lparr>nodes = [''/r/a'' \<mapsto> DirNode], refused = (\<lambda>path. path = ''/r/a/z'')\<rparr>"

definition stubDisk :: localfs where
  "stubDisk =
     \<lparr>nodes = [''/r/a'' \<mapsto> DirNode,
               ''/r/a/x.txt'' \<mapsto> SymlinkNode ''eC50eHQ='',
               ''/r/a/bad'' \<mapsto> SymlinkNode ''!!'',
               ''/r/a/empty'' \<mapsto> SymlinkNode '''',
               ''/r/a/f'' \<mapsto> FileNode ''data''],
      refused = (\<lambda>path. False)\<rparr>"

subsection \<open>Buckets for concrete runs\<close>

text \<open>
  A bucket with the keys \<open>a/x.txt\<close> (100 bytes), \<open>a/y/z.txt\<close> (5 bytes) and \<open>a/z\<close>
  (1 byte), listed under the prefix \<open>a/\<close>: with the delimiter \<open>/\<close> in one page, without
  a delimiter in two pages linked by the marker \<open>m1\<close>; any other marker is refused.
\<close>

definition demoList :: ListFiles where
  "demoList bn inp =
     (if optDelimiter inp = ''/'' then
        Inr (\<lparr>Marker = '''',
              Items = [\<lparr>Key = ''a/x.txt'', Fsize = 100, PutTime = 7\<rparr>,
                       \<lparr>Key = ''a/z'', Fsize = 1, PutTime = 9\<rparr>],
              CommonPrefixes = [''a/y/'']\<rparr>, False)
      else if optMarker inp = '''' then
        Inr (\<lparr>Marker = ''m1'',
              Items = [\<lparr>Key = ''a/x.txt'', Fsize = 100, PutTime = 7\<rparr>,
                       \<lparr>Key = ''a/y/z.txt'', Fsize = 5, PutTime = 8\<rparr>],
              CommonPrefixes = []\<rparr>, True)
      else if optMarker inp = ''m1'' then
        Inr (\<lparr>Marker = '''', Items = [\<lparr>Key = ''a/z'', Fsize = 1, PutTime = 9\<rparr>],
              CommonPrefixes = []\<rparr>, False)
      else Inl (ErrOther ''bad marker''))"

definition demoBucket :: Bucket where
  "demoBucket = \<lparr>m = demoList, bucket = ''b''\<rparr>"

text \<open>A visitor that records the path and asks to stop at every entry.\<close>

definition alwaysStop :: "string list WalkFunc" where
  "alwaysStop visited path info err = (visited @ [path], Some (ErrOther ''stop''))"

text \<open>A listing that returns the prefix \<open>a/\<close> itself as a common prefix.\<close>

definition selfPrefixBucket :: Bucket where
  "selfPrefixBucket =
     \<lparr>m = (\<lambda>bn inp. Inr (\<lparr>Marker = '''', Items = [], CommonPrefixes = [''a/'']\<rparr>, False)),
      bucket = ''b''\<rparr>"

text \<open>A bucket with no keys.\<close>

definition vacantBucket :: Bucket where
  "vacantBucket =
     \<lparr>m = (\<lambda>bn inp. Inr (\<lparr>Marker = '''', Items = [], CommonPrefixes = []\<rparr>, False)),
      bucket = ''b''\<rparr>"

text \<open>
  The demo bucket as a file system: the opener finds the object \<open>/a/x.txt\<close> and reports
  every other URL as not existing.
\<close>

definition demoFs :: "string kodofsBucket" where
  "demoFs =
     \<lparr>bkt = demoBucket,
      prepare = (\<lambda>name url. if url = ''http://h/a/x.txt'' then Inr ''contents'' else Inl ErrNotExist),
      host = ''http://h''\<rparr>"

definition vacantFs :: "string kodofsBucket" where
  "vacantFs = \<lparr>bkt = vacantBucket, prepare = (\<lambda>name url. Inl ErrNotExist), host = ''http://h''\<rparr>"

section \<open>Register: properties\<close>

lemma Register_loop_unfold:
  "Register_loop xs i hosts =
     (if i < length xs then
        (if i + 1 < length xs then
           Register_loop xs (i + 2) (hosts(xs ! i \<mapsto> xs ! (i + 1)))
         else (Panic (IndexOutOfRange (i + 1) (length xs)), hosts))
      else (Returned (), hosts))"
  by (subst Register_loop.simps) (simp add: Let_def)

lemma pairs_of_drop_step:
  "i + 1 < length xs \<Longrightarrow> pairs_of (drop i xs) = (xs ! i, xs ! (i + 1)) # pairs_of (drop (i + 2) xs)"
proof -
  assume h: "i + 1 < length xs"
  then have "drop i xs = xs ! i # drop (Suc i) xs"
    by (simp add: Cons_nth_drop_Suc)
  moreover from h have "drop (Suc i) xs = xs ! (Suc i) # drop (Suc (Suc i)) xs"
    by (simp add: Cons_nth_drop_Suc)
  ultimately show ?thesis by simp
qed

lemma Register_loop_even:
  "even (length xs - i) \<Longrightarrow>
     Register_loop xs i hosts = (Returned (), store_pairs hosts (pairs_of (drop i xs)))"
proof (induction xs i hosts rule: Register_loop.induct)
  case (1 xs i hosts)
  show ?case
  proof (cases "i < length xs")
    case False
    then show ?thesis
      by (subst Register_loop_unfold) (simp add: store_pairs_def)
  next
    case True
    with "1.prems" have lt: "i + 1 < length xs"
      by presburger
    from "1.prems" lt have ev: "even (length xs - (i + 2))"
      by presburger
    have "Register_loop xs i hosts =
            Register_loop xs (i + 2) (hosts(xs ! i \<mapsto> xs ! (i + 1)))"
      using True lt by (subst Register_loop_unfold) simp
    also have "\<dots> = (Returned (),
        store_pairs (hosts(xs ! i \<mapsto> xs ! (i + 1))) (pairs_of (drop (i + 2) xs)))"
      using "1.IH" [OF refl True lt ev] .
    finally show ?thesis
      using lt by (simp add: pairs_of_drop_step store_pairs_def)
  qed
qed

lemma Register_loop_odd:
  "odd (length xs - i) \<Longrightarrow>
     fst (Register_loop xs i hosts) = Panic (IndexOutOfRange (length xs) (length xs))"
proof (induction xs i hosts rule: Register_loop.induct)
  case (1 xs i hosts)
  from "1.prems" have True: "i < length xs"
    by presburger
  show ?case
  proof (cases "i + 1 < length xs")
    case False
    with True have "i + 1 = length xs" by simp
    then show ?thesis
      using True by (subst Register_loop_unfold) simp
  next
    case lt: True
    from "1.prems" lt have od: "odd (length xs - (i + 2))"
      by presburger
    have step: "Register_loop xs i hosts =
            Register_loop xs (i + 2) (hosts(xs ! i \<mapsto> xs ! (i + 1)))"
      using True lt by (subst Register_loop_unfold) simp
    show ?thesis
      unfolding step by (rule "1.IH" [OF refl True lt od])
  qed
qed

text \<open>
  C10. \<open>Register\<close> consumes its arguments in pairs. With an even number of arguments it
  returns, and the registry then holds every (bucket, host) pair of the call, stored in
  order on top of the old entries. With an odd number of arguments it panics: the index
  expression reads index \<open>n\<close> of a list of length \<open>n\<close>, one past the end.
\<close>

theorem Register_pairs:
  "(even (length args) \<longrightarrow>
      Register args hosts = (Returned (), store_pairs hosts (pairs_of args))) \<and>
   (odd (length args) \<longrightarrow>
      fst (Register args hosts) = Panic (IndexOutOfRange (length args) (length args)))"
  using Register_loop_even [of args 0 hosts] Register_loop_odd [of args 0 hosts]
  by (simp add: Register_def)

theorem Register_pairs_witness:
  "even (length [''b1'', ''h1'', ''b2'', ''h2'']) \<and>
   Register [''b1'', ''h1'', ''b2'', ''h2''] Map.empty =
     (Returned (), [''b1'' \<mapsto> ''h1'', ''b2'' \<mapsto> ''h2'']) \<and>
   odd (length [''b1'', ''h1'', ''b2'']) \<and>
   fst (Register [''b1'', ''h1'', ''b2''] Map.empty) = Panic (IndexOutOfRange 3 3) \<and>
   snd (Register [''b1'', ''h1'', ''b2''] Map.empty) = [''b1'' \<mapsto> ''h1'']"
proof -
  have a: "Register [''b1'', ''h1'', ''b2'', ''h2''] Map.empty =
      (Returned (), [''b1'' \<mapsto> ''h1'', ''b2'' \<mapsto> ''h2''])"
    using Register_pairs [of "[''b1'', ''h1'', ''b2'', ''h2'']" Map.empty]
    by (simp add: store_pairs_def)
  have b: "fst (Register [''b1'', ''h1'', ''b2''] Map.empty) = Panic (IndexOutOfRange 3 3)"
    using Register_pairs [of "[''b1'', ''h1'', ''b2'']" Map.empty] by simp
  have c: "snd (Register [''b1'', ''h1'', ''b2''] Map.empty) = [''b1'' \<mapsto> ''h1'']"
    by (simp add: Register_def Register_loop_unfold)
  from a b c show ?thesis by simp
qed


section \<open>WalkContext: properties\<close>

lemma WalkContext_items_entries:
  "WalkContext_items dir fn items s =
     (foldl (visit fn) s (fst (page_entries dir items)), snd (page_entries dir items))"
proof (induction items arbitrary: s)
  case Nil
  show ?case by simp
next
  case (Cons item items)
  show ?case
  proof (cases "slice_from (Key item) (int (length dir))")
    case (Inl p)
    then show ?thesis by simp
  next
    case (Inr name)
    then show ?thesis
      by (simp add: Cons.IH visit_def split_beta)
  qed
qed

lemma WalkContext_loop_entries:
  "WalkContext_loop fuel bk dir fn marker s =
     (foldl (visit fn) s (fst (walk_entries fuel bk dir marker)),
      snd (walk_entries fuel bk dir marker))"
proof (induction fuel arbitrary: marker s)
  case 0
  show ?case by simp
next
  case (Suc fuel)
  show ?case
    by (simp add: WalkContext_items_entries Suc.IH split_beta
        split: sum.splits option.splits prod.splits)
qed

lemma WalkContext_loop_fetch_fails:
  "m bk (bucket bk) \<lparr>optPrefix = dir, optDelimiter = '''', optLimit = 1000, optMarker = marker\<rparr> = Inl e
     \<Longrightarrow> WalkContext_loop (Suc fuel) bk dir fn marker s = (s, Returned (Some e))"
  by simp

text \<open>
  C1, as the code has it. The visitor is called once for every entry that the listing
  gives, in order, and what it returns is ignored: a walk with any visitor \<open>fn\<close> leaves
  \<open>fn\<close>'s state as the calls of \<open>fn\<close> on the listed entries, one call each, leave it,
  and it ends as the listing ends. A round whose page fetch fails ends the walk with the
  error of the fetch, with no further visit and no further fetch.
\<close>

theorem WalkContext_visits_every_entry:
  "WalkContext fuel bk dir fn s =
     (foldl (visit fn) s (fst (walk_entries fuel bk (normalizeDir dir) '''')),
      snd (walk_entries fuel bk (normalizeDir dir) '''')) \<and>
   (m bk (bucket bk) \<lparr>optPrefix = pre, optDelimiter = '''', optLimit = 1000, optMarker = marker\<rparr> = Inl e
      \<longrightarrow> WalkContext_loop (Suc fuel) bk pre fn marker s = (s, Returned (Some e)))"
  using WalkContext_loop_entries [of fuel bk "normalizeDir dir" fn "''''" s]
    WalkContext_loop_fetch_fails [of bk pre marker e fuel fn s]
  unfolding WalkContext_def by blast

lemma demo_walk_entries:
  "walk_entries 3 demoBucket (normalizeDir ''/a'') '''' =
     ([(''/a/x.txt'', XFileInfo ''x.txt'' 100 None),
       (''/a/y/z.txt'', XFileInfo ''y/z.txt'' 5 None),
       (''/a/z'', XFileInfo ''z'' 1 None)], Returned None)"
  by code_simp

theorem WalkContext_visits_every_entry_witness:
  "m demoBucket (bucket demoBucket)
      \<lparr>optPrefix = ''a/'', optDelimiter = '''', optLimit = 1000, optMarker = ''zz''\<rparr> =
     Inl (ErrOther ''bad marker'') \<and>
   WalkContext_loop (Suc 3) demoBucket ''a/'' alwaysStop ''zz'' [] =
     ([], Returned (Some (ErrOther ''bad marker''))) \<and>
   WalkContext 3 demoBucket ''/a'' alwaysStop [] =
     (foldl (visit alwaysStop) []
        [(''/a/x.txt'', XFileInfo ''x.txt'' 100 None),
         (''/a/y/z.txt'', XFileInfo ''y/z.txt'' 5 None),
         (''/a/z'', XFileInfo ''z'' 1 None)], Returned None)"
proof -
  have f: "m demoBucket (bucket demoBucket)
      \<lparr>optPrefix = ''a/'', optDelimiter = '''', optLimit = 1000, optMarker = ''zz''\<rparr> =
     Inl (ErrOther ''bad marker'')"
    by (simp add: demoBucket_def demoList_def)
  from f demo_walk_entries
    WalkContext_visits_every_entry
      [where fuel = 3 and bk = demoBucket and dir = "''/a''" and fn = alwaysStop and s = "[]"
         and pre = "''a/''" and marker = "''zz''" and e = "ErrOther ''bad marker''"]
  show ?thesis by (simp only: fst_conv snd_conv simp_thms)
qed

text \<open>
  The claim as the spec words it fails: at the first entry the visitor below returns a
  non-nil error, and the walk still visits the two entries after it, the last of them on
  a second page fetched after the request, and returns nil.
\<close>

theorem WalkContext_stop_request_counterexample:
  "snd (alwaysStop [] ''/a/x.txt'' (XFileInfo ''x.txt'' 100 None) None) = Some (ErrOther ''stop'') \<and>
   WalkContext 3 demoBucket ''/a'' alwaysStop [] =
     ([''/a/x.txt'', ''/a/y/z.txt'', ''/a/z''], Returned None)"
  by code_simp

section \<open>ListIterator.Next: properties\<close>

lemma listPaged_nonempty_or_last:
  assumes "pages_nonempty_or_last bk" "listPaged bk opt = Inr (p, isLast)"
  shows "Objects p \<noteq> [] \<or> isLast"
proof -
  let ?inp = "\<lparr>optPrefix = Prefix opt, optDelimiter = Delimiter opt,
              optLimit = PageSize opt, optMarker = PageToken opt\<rparr>"
  from assms(2) obtain ret hasNext where r: "m bk (bucket bk) ?inp = Inr (ret, hasNext)"
    and p: "p = \<lparr>Objects = Items ret, NextPageToken = Marker ret\<rparr>" "isLast = (\<not> hasNext)"
    by (auto simp: listPaged_def split: sum.splits)
  from assms(1) r have "Items ret \<noteq> [] \<or> \<not> hasNext"
    unfolding pages_nonempty_or_last_def by blast
  with p show ?thesis by simp
qed

lemma Next_returns:
  assumes "pages_nonempty_or_last (b it)"
  shows "\<exists>y. Next it = Some y"
proof (cases "Next_inPage it")
  case (Inl res)
  then show ?thesis by (subst Next.simps) simp
next
  case (Inr i1)
  have bi: "b i1 = b it"
    using Inr by (auto simp: Next_inPage_def split: option.splits if_splits)
  show ?thesis
  proof (cases "listPaged (b i1) (opts i1)")
    case (Inl err)
    with Inr show ?thesis by (subst Next.simps) simp
  next
    case (Inr pl)
    obtain p isLast where pl: "pl = (p, isLast)" by (cases pl)
    from listPaged_nonempty_or_last [of "b i1" "opts i1" p isLast] Inr pl assms bi
    have ok: "Objects p \<noteq> [] \<or> isLast" by simp
    let ?i2 = "i1\<lparr>page := Some p, nextIdx := 0, isLastPage := isLast\<rparr>"
    have "\<exists>res. Next_inPage ?i2 = Inl res"
      using ok by (auto simp: Next_inPage_def)
    then obtain res where "Next_inPage ?i2 = Inl res" ..
    then have "Next ?i2 = Some res" by (subst Next.simps) simp
    with Inr pl \<open>Next_inPage it = Inr i1\<close> show ?thesis
      by (subst Next.simps) simp
  qed
qed

lemma Next_not_stuck: "Next it = Some y \<Longrightarrow> \<not> stuck it"
proof (induction rule: Next.raw_induct [rotated 1, consumes 1])
  case (1 nxt it y)
  show ?case
  proof
    assume st: "stuck it"
    then obtain i1 where i1: "Next_inPage it = Inr i1" "b i1 = emptyPages"
      by (auto simp: stuck_def Next_inPage_def split: option.splits)
    let ?p = "\<lparr>Objects = [], NextPageToken = ''next''\<rparr>"
    have lp: "listPaged (b i1) (opts i1) = Inr (?p, False)"
      using i1 by (simp add: listPaged_def emptyPages_def)
    let ?i2 = "i1\<lparr>page := Some ?p, nextIdx := 0, isLastPage := False\<rparr>"
    from "1"(2) i1 lp have "nxt ?i2 = Some y" by simp
    from "1"(1) [OF this] i1 show False by (simp add: stuck_def)
  qed
qed

lemma Next_emptyPages: "Next (List emptyPages None) = None"
proof (cases "Next (List emptyPages None)")
  case None
  then show ?thesis .
next
  case (Some y)
  from Next_not_stuck [OF Some] show ?thesis by (simp add: List_def stuck_def)
qed

text \<open>
  C8. For every iterator state, \<open>Next\<close> returns when every page that the listing API
  returns is non-empty or flagged as the last page. Without that condition it need not:
  on a bucket whose pages are all empty and never the last, \<open>Next\<close> on a fresh iterator
  loads page after page and never returns.
\<close>

theorem Next_terminates:
  "(pages_nonempty_or_last (b it) \<longrightarrow> (\<exists>y. Next it = Some y)) \<and>
   \<not> pages_nonempty_or_last emptyPages \<and>
   Next (List emptyPages None) = None"
proof -
  have "\<not> pages_nonempty_or_last emptyPages"
    by (auto simp: pages_nonempty_or_last_def emptyPages_def)
  with Next_returns [of it] Next_emptyPages show ?thesis by blast
qed

lemma demoBucket_pages: "pages_nonempty_or_last demoBucket"
  by (simp add: pages_nonempty_or_last_def demoBucket_def demoList_def)

theorem Next_terminates_witness:
  "pages_nonempty_or_last (b (List demoBucket None)) \<and>
   (\<exists>y. Next (List demoBucket None) = Some y) \<and>
   map_option fst (Next (List demoBucket None)) =
     Some (Inr \<lparr>objKey = ''a/x.txt'', objModTime = Some 700, objSize = 100, objIsDir = False\<rparr>)"
proof -
  have p: "pages_nonempty_or_last (b (List demoBucket None))"
    using demoBucket_pages by (simp add: List_def)
  have v: "map_option fst (Next (List demoBucket None)) =
     Some (Inr \<lparr>objKey = ''a/x.txt'', objModTime = Some 700, objSize = 100, objIsDir = False\<rparr>)"
    by code_simp
  from p v Next_terminates [of "List demoBucket None"] show ?thesis by blast
qed



section \<open>ReaddirContext: properties\<close>

lemma HasPrefix_append_drop: "HasPrefix s pre \<Longrightarrow> s = pre @ drop (length pre) s"
  unfolding HasPrefix_def by (metis append_take_drop_id)

lemma slice_from_HasPrefix:
  "HasPrefix s pre \<Longrightarrow> slice_from s (int (length pre)) = Inr (drop (length pre) s)"
  by (simp add: slice_from_def HasPrefix_def)

lemma slice_HasPrefix:
  "HasPrefix s pre \<Longrightarrow> length pre < length s \<Longrightarrow>
     slice s (int (length pre)) (int (length s) - 1) = Inr (butlast (drop (length pre) s))"
proof -
  assume h: "HasPrefix s pre" and lt: "length pre < length s"
  have n: "nat (int (length s) - 1 - int (length pre)) = length s - 1 - length pre"
    using lt by arith
  have "butlast (drop (length pre) s) = take (length s - 1 - length pre) (drop (length pre) s)"
    by (simp add: butlast_conv_take)
  with n lt show ?thesis
    by (simp add: slice_def)
qed

lemma ReaddirContext_items_ok:
  "\<forall>item \<in> set items. HasPrefix (Key item) dir \<Longrightarrow>
     ReaddirContext_items dir items fis = Inr (fis @ map (itemInfo dir) items)"
  by (induction items arbitrary: fis) (simp_all add: slice_from_HasPrefix itemInfo_def)

lemma ReaddirContext_prefixes_ok:
  "\<forall>key \<in> set keys. HasPrefix key dir \<and> length dir < length key \<Longrightarrow>
     ReaddirContext_prefixes dir keys fis = Inr (fis @ map (prefixInfo dir) keys)"
  by (induction keys arbitrary: fis) (simp_all add: slice_HasPrefix prefixInfo_def NewDirInfo_def)

lemma listed_as_item:
  "item \<in> set (Items ret) \<Longrightarrow> HasPrefix (Key item) dir \<Longrightarrow> listed_as dir ret (itemInfo dir item)"
  unfolding listed_as_def itemInfo_def
  using HasPrefix_append_drop by fastforce

lemma listed_as_prefix:
  assumes "key \<in> set (CommonPrefixes ret)" "HasPrefix key dir" "length dir < length key"
  shows "listed_as dir ret (prefixInfo dir key)"
proof -
  let ?rest = "drop (length dir) key"
  from assms(3) have ne: "?rest \<noteq> []" by simp
  have "key = dir @ ?rest" using assms(2) by (rule HasPrefix_append_drop)
  also have "?rest = butlast ?rest @ [last ?rest]"
    using ne by (rule append_butlast_last_id [symmetric])
  finally have "key = dir @ butlast ?rest @ [last ?rest]" .
  with assms(1) show ?thesis
    unfolding listed_as_def prefixInfo_def by auto
qed

lemma ReaddirContext_loop_ok:
  assumes pre: "lists_under bk dir"
  shows "\<forall>fi \<in> set fis. named_from bk dir fi \<Longrightarrow>
     (\<forall>p. ReaddirContext_loop fuel bk dir marker fis \<noteq> Panic p) \<and>
     (\<forall>out. ReaddirContext_loop fuel bk dir marker fis = Returned (Inr out) \<longrightarrow>
        (\<forall>fi \<in> set out. named_from bk dir fi))"
proof (induction fuel arbitrary: marker fis)
  case 0
  show ?case by simp
next
  case (Suc fuel)
  let ?inp = "\<lparr>optPrefix = dir, optDelimiter = ''/'', optLimit = 1000, optMarker = marker\<rparr>"
  show ?case
  proof (cases "m bk (bucket bk) ?inp")
    case (Inl e)
    then show ?thesis by simp
  next
    case (Inr r)
    obtain ret hasNext where r: "r = (ret, hasNext)" by (cases r)
    from pre [unfolded lists_under_def, rule_format, of ?inp ret hasNext] Inr r have ku: "keys_under dir ret" by simp
    let ?fis2 = "(fis @ map (itemInfo dir) (Items ret)) @ map (prefixInfo dir) (CommonPrefixes ret)"
    have i: "ReaddirContext_items dir (Items ret) fis = Inr (fis @ map (itemInfo dir) (Items ret))"
      using ku by (intro ReaddirContext_items_ok) (simp add: keys_under_def)
    have p: "ReaddirContext_prefixes dir (CommonPrefixes ret) (fis @ map (itemInfo dir) (Items ret)) =
        Inr ?fis2"
      using ku by (intro ReaddirContext_prefixes_ok) (simp add: keys_under_def)
    have step: "ReaddirContext_loop (Suc fuel) bk dir marker fis =
        (if \<not> hasNext then Returned (Inr ?fis2)
         else ReaddirContext_loop fuel bk dir (Marker ret) ?fis2)"
      using Inr r i p by simp
    have nf: "\<forall>fi \<in> set ?fis2. named_from bk dir fi"
    proof
      fix fi assume "fi \<in> set ?fis2"
      then consider "fi \<in> set fis"
        | item where "item \<in> set (Items ret)" "fi = itemInfo dir item"
        | key where "key \<in> set (CommonPrefixes ret)" "fi = prefixInfo dir key"
        by auto
      then show "named_from bk dir fi"
      proof cases
        case 1
        with Suc.prems show ?thesis by simp
      next
        case 2
        with ku have "listed_as dir ret fi"
          by (simp add: keys_under_def listed_as_item)
        with Inr r show ?thesis unfolding named_from_def
          by (intro exI [of _ ?inp] exI [of _ ret] exI [of _ hasNext]) simp
      next
        case 3
        with ku have "listed_as dir ret fi"
          by (simp add: keys_under_def listed_as_prefix)
        with Inr r show ?thesis unfolding named_from_def
          by (intro exI [of _ ?inp] exI [of _ ret] exI [of _ hasNext]) simp
      qed
    qed
    show ?thesis
    proof (cases hasNext)
      case False
      with step nf show ?thesis by simp
    next
      case True
      with step have "ReaddirContext_loop (Suc fuel) bk dir marker fis =
          ReaddirContext_loop fuel bk dir (Marker ret) ?fis2"
        by simp
      with Suc.IH [OF nf] show ?thesis by simp
    qed
  qed
qed

text \<open>
  C9, as the code has it. Let every page listed for the normalized directory prefix have
  its keys under that prefix: every item key starts with the prefix, and every common
  prefix starts with it and is longer than it. Then no slice expression of
  \<open>ReaddirContext\<close> is out of range, whatever the number of pages; and every info that
  \<open>ReaddirContext\<close> returns has the name of a listed entry with the prefix taken off: the
  prefix followed by the name is the key of a listed item or, for a directory, a listed
  common prefix without its last character.
\<close>

theorem ReaddirContext_slices_in_bounds:
  assumes "lists_under bk (normalizeDir dir)"
  shows "(\<forall>p. ReaddirContext fuel bk dir \<noteq> Panic p) \<and>
     (\<forall>fis. ReaddirContext fuel bk dir = Returned (Inr fis) \<longrightarrow>
        (\<forall>fi \<in> set fis. named_from bk (normalizeDir dir) fi))"
  unfolding ReaddirContext_def
  using ReaddirContext_loop_ok [OF assms, of "[]" fuel "''''"] by simp

lemma demoBucket_keys_under: "lists_under demoBucket (normalizeDir ''/a'')"
  by (auto simp: lists_under_def demoBucket_def demoList_def keys_under_def normalizeDir_def TrimPrefix_def
      HasPrefix_def HasSuffix_def split: if_splits)

theorem ReaddirContext_slices_in_bounds_witness:
  "lists_under demoBucket (normalizeDir ''/a'') \<and>
   ReaddirContext 1 demoBucket ''/a'' =
     Returned (Inr [XFileInfo ''x.txt'' 100 (Some 700), XFileInfo ''z'' 1 (Some 900), XDirInfo ''y'']) \<and>
   named_from demoBucket ''a/'' (XFileInfo ''x.txt'' 100 (Some 700)) \<and>
   named_from demoBucket ''a/'' (XFileInfo ''z'' 1 (Some 900)) \<and>
   named_from demoBucket ''a/'' (XDirInfo ''y'')"
proof -
  have r: "ReaddirContext 1 demoBucket ''/a'' =
     Returned (Inr [XFileInfo ''x.txt'' 100 (Some 700), XFileInfo ''z'' 1 (Some 900), XDirInfo ''y''])"
    by code_simp
  have n: "normalizeDir ''/a'' = ''a/''"
    by code_simp
  from ReaddirContext_slices_in_bounds [OF demoBucket_keys_under, of 1] r n
  have "\<forall>fi \<in> set [XFileInfo ''x.txt'' 100 (Some 700), XFileInfo ''z'' 1 (Some 900), XDirInfo ''y''].
      named_from demoBucket ''a/'' fi"
    by simp
  with demoBucket_keys_under r show ?thesis by simp
qed

text \<open>
  The claim with its own condition, that every key and common prefix starts with the
  prefix, fails: a common prefix equal to the prefix starts with it, and the slice
  \<open>key[len(dir) : len(key)-1]\<close> is then \<open>key[2:1]\<close>, out of range.
\<close>

theorem ReaddirContext_prefix_itself_counterexample:
  "normalizeDir ''/a'' = ''a/'' \<and>
   m selfPrefixBucket (bucket selfPrefixBucket)
       \<lparr>optPrefix = ''a/'', optDelimiter = ''/'', optLimit = 1000, optMarker = ''''\<rparr> =
     Inr (\<lparr>Marker = '''', Items = [], CommonPrefixes = [''a/'']\<rparr>, False) \<and>
   HasPrefix ''a/'' ''a/'' \<and>
   ReaddirContext 1 selfPrefixBucket ''/a'' = Panic (SliceOutOfRange 2 1 2)"
  by (simp add: selfPrefixBucket_def normalizeDir_def TrimPrefix_def HasPrefix_def HasSuffix_def
      ReaddirContext_def slice_def)

section \<open>Bucket.Open: properties\<close>

text \<open>
  C2, as the code has it. For a name that is not the root, \<open>Open\<close> returns what the
  single-object fetch gave, the handle or the error, without any listing, when the fetch
  succeeds, or the name looks like an index page, or the error is not a not-found error.
  The directory synthesis is attempted in the remaining case only: the fetch fails with
  not-found and the name does not look like an index page.
\<close>

theorem Open_fetch_or_directory:
  assumes "name \<noteq> ''/''"
  shows "case prepare bk name (host bk @ name) of
           Inr f \<Rightarrow> Open fuel bk name = Returned (Inr (ObjectFile f))
         | Inl err \<Rightarrow>
             if IsNotExist err \<and> \<not> isIndexPage name then Open fuel bk name = Open_dir fuel bk name
             else Open fuel bk name = Returned (Inl err)"
  using assms by (simp add: Open_def split: sum.splits)

theorem Open_fetch_or_directory_witness:
  "''/a/x.txt'' \<noteq> ''/'' \<and> Open 0 demoFs ''/a/x.txt'' = Returned (Inr (ObjectFile ''contents'')) \<and>
   ''/a/index.html'' \<noteq> ''/'' \<and> isIndexPage ''/a/index.html'' \<and>
   Open 0 demoFs ''/a/index.html'' = Returned (Inl ErrNotExist) \<and>
   ''/a'' \<noteq> ''/'' \<and> \<not> isIndexPage ''/a'' \<and>
   Open 0 demoFs ''/a'' = Open_dir 0 demoFs ''/a'' \<and> Open_dir 0 demoFs ''/a'' = OutOfFuel"
proof -
  have i: "isIndexPage ''/a/index.html''" "\<not> isIndexPage ''/a''"
    by (simp_all add: isIndexPage_def HasSuffix_def)
  have d: "Open_dir 0 demoFs ''/a'' = OutOfFuel"
    by (simp add: Open_dir_def ReaddirContext_def)
  from i d Open_fetch_or_directory [where name = "''/a/x.txt''" and bk = demoFs and fuel = 0]
    Open_fetch_or_directory [where name = "''/a/index.html''" and bk = demoFs and fuel = 0]
    Open_fetch_or_directory [where name = "''/a''" and bk = demoFs and fuel = 0]
  show ?thesis
    by (simp add: demoFs_def IsNotExist_def)
qed

text \<open>
  The claim as the spec words it fails: the fetch of \<open>/a\<close> fails with not-found and the
  name does not look like an index page, and \<open>Open\<close> does not return that error, it
  returns the synthesized directory.
\<close>

theorem Open_not_found_counterexample:
  "''/a'' \<noteq> ''/'' \<and>
   prepare demoFs ''/a'' (host demoFs @ ''/a'') = Inl ErrNotExist \<and>
   IsNotExist ErrNotExist \<and> \<not> isIndexPage ''/a'' \<and>
   Open 1 demoFs ''/a'' \<noteq> Returned (Inl ErrNotExist) \<and>
   Open 1 demoFs ''/a'' =
     Returned (Inr (Dir (XDirInfo ''a'')
       [XFileInfo ''x.txt'' 100 (Some 700), XFileInfo ''z'' 1 (Some 900), XDirInfo ''y'']))"
proof -
  have o: "Open 1 demoFs ''/a'' =
     Returned (Inr (Dir (XDirInfo ''a'')
       [XFileInfo ''x.txt'' 100 (Some 700), XFileInfo ''z'' 1 (Some 900), XDirInfo ''y'']))"
    by code_simp
  have "\<not> isIndexPage ''/a''"
    by (simp add: isIndexPage_def HasSuffix_def)
  with o show ?thesis
    by (simp add: demoFs_def IsNotExist_def)
qed

text \<open>
  C4. When \<open>Open\<close> falls through to the directory synthesis (the name is the root, or
  the fetch failed with not-found and the name does not look like an index page) and the
  listing of the children returns: with zero entries \<open>Open\<close> returns the does-not-exist
  error; with at least one entry it returns a directory handle made of exactly those
  entries, whose readdir gives them back and whose \<open>Close\<close> returns nil and changes
  nothing.
\<close>

theorem Open_directory:
  assumes "name = ''/'' \<or>
      (\<exists>err. prepare bk name (host bk @ name) = Inl err \<and> IsNotExist err \<and> \<not> isIndexPage name)"
    and "ReaddirContext fuel (bkt bk) name = Returned (Inr fis)"
  shows "if fis = [] then Open fuel bk name = Returned (Inl ErrNotExist)
         else Open fuel bk name = Returned (Inr (Dir (NewDirInfo (path_Base name)) fis)) \<and>
              Readdir (Dir (NewDirInfo (path_Base name)) fis :: 'f File) = Inr fis \<and>
              Close closeObject (Dir (NewDirInfo (path_Base name)) fis) =
                (None, Dir (NewDirInfo (path_Base name)) fis)"
proof -
  have "Open fuel bk name = Open_dir fuel bk name"
    using assms(1) by (auto simp: Open_def)
  with assms(2) show ?thesis
    by (simp add: Open_dir_def DirInfo_Close_def)
qed

theorem Open_directory_witness:
  "prepare demoFs ''/a'' (host demoFs @ ''/a'') = Inl ErrNotExist \<and>
   IsNotExist ErrNotExist \<and> \<not> isIndexPage ''/a'' \<and>
   ReaddirContext 1 (bkt demoFs) ''/a'' =
     Returned (Inr [XFileInfo ''x.txt'' 100 (Some 700), XFileInfo ''z'' 1 (Some 900), XDirInfo ''y'']) \<and>
   Open 1 demoFs ''/a'' =
     Returned (Inr (Dir (XDirInfo ''a'')
       [XFileInfo ''x.txt'' 100 (Some 700), XFileInfo ''z'' 1 (Some 900), XDirInfo ''y''])) \<and>
   ReaddirContext 1 (bkt vacantFs) ''/'' = Returned (Inr []) \<and>
   Open 1 vacantFs ''/'' = Returned (Inl ErrNotExist)"
proof -
  have f: "prepare demoFs ''/a'' (host demoFs @ ''/a'') = Inl ErrNotExist"
    "IsNotExist ErrNotExist" "\<not> isIndexPage ''/a''"
    by (simp_all add: demoFs_def IsNotExist_def isIndexPage_def HasSuffix_def)
  have r: "ReaddirContext 1 (bkt demoFs) ''/a'' =
     Returned (Inr [XFileInfo ''x.txt'' 100 (Some 700), XFileInfo ''z'' 1 (Some 900), XDirInfo ''y''])"
    by code_simp
  have v: "ReaddirContext 1 (bkt vacantFs) ''/'' = Returned (Inr [])"
    by code_simp
  have b: "path_Base ''/a'' = ''a''"
    by code_simp
  have h: "''/a'' = ''/'' \<or>
      (\<exists>err. prepare demoFs ''/a'' (host demoFs @ ''/a'') = Inl err \<and> IsNotExist err \<and>
         \<not> isIndexPage ''/a'')"
    using f by blast
  from Open_directory [OF h r] Open_directory [where name = "''/''" and bk = vacantFs and fuel = 1 and fis = "[]", OF _ v] f r v b
  show ?thesis
    by (simp add: NewDirInfo_def)
qed



section \<open>Base64: decoding undoes encoding\<close>

lemma sextets_recompose:
  fixes n :: nat
  shows "n div 262144 mod 64 * 262144 + n div 4096 mod 64 * 4096 + n div 64 mod 64 * 64 + n mod 64 =
         n mod 16777216"
proof -
  have a: "n mod (64 * 64) = 64 * (n div 64 mod 64) + n mod 64"
    by (rule mod_mult2_eq)
  have b: "n mod (4096 * 64) = 4096 * (n div 4096 mod 64) + n mod 4096"
    by (rule mod_mult2_eq)
  have c: "n mod (262144 * 64) = 262144 * (n div 262144 mod 64) + n mod 262144"
    by (rule mod_mult2_eq)
  from a b c show ?thesis by simp
qed

lemma bytes_of_val:
  fixes a b c :: nat
  assumes "b < 256" "c < 256"
  shows "(a * 65536 + b * 256 + c) div 65536 = a"
    and "(a * 65536 + b * 256 + c) div 256 mod 256 = b"
    and "(a * 65536 + b * 256 + c) mod 256 = c"
proof -
  show "(a * 65536 + b * 256 + c) div 65536 = a"
    using assms by simp
  have d: "(a * 65536 + b * 256 + c) div 256 = a * 256 + b"
    using assms by simp
  then show "(a * 65536 + b * 256 + c) div 256 mod 256 = b"
    using assms by simp
  have "(a * 65536 + b * 256 + c) div 256 * 256 + (a * 65536 + b * 256 + c) mod 256 =
      a * 65536 + b * 256 + c"
    by (rule div_mult_mod_eq)
  with d show "(a * 65536 + b * 256 + c) mod 256 = c"
    by simp
qed

lemma distinct_encodeURL: "distinct encodeURL"
  by (simp add: encodeURL_def)

lemma length_encodeURL: "length encodeURL = 64"
  by (simp add: encodeURL_def)

lemma decodeMap_enc64: "decodeMap (enc64 v) = Some (v mod 64)"
proof -
  have "map_of (zip encodeURL [0..<64]) (encodeURL ! (v mod 64)) = Some ([0..<64] ! (v mod 64))"
    by (rule map_of_zip_nth) (simp_all add: length_encodeURL distinct_encodeURL)
  then show ?thesis by (simp add: decodeMap_def enc64_def)
qed

lemma enc64_in_alphabet: "enc64 v \<in> set encodeURL"
  by (simp add: enc64_def length_encodeURL)

lemma enc64_not_special:
  "enc64 v \<noteq> padChar" "enc64 v \<noteq> CHR 0x0D" "enc64 v \<noteq> CHR 0x0A"
proof -
  have "padChar \<notin> set encodeURL" "CHR 0x0D \<notin> set encodeURL" "CHR 0x0A \<notin> set encodeURL"
    by (simp_all add: encodeURL_def padChar_def)
  with enc64_in_alphabet [of v] show "enc64 v \<noteq> padChar" "enc64 v \<noteq> CHR 0x0D" "enc64 v \<noteq> CHR 0x0A"
    by auto
qed

lemma char_of_byte: "n mod 256 = of_char c \<Longrightarrow> char_of (n::nat) = c"
  by (simp add: char_of_eq_iff take_bit_eq_mod)

lemma of_char_less: "of_char c < (256::nat)"
proof -
  have "of_char c mod (256::nat) < 256" by simp
  then show ?thesis by simp
qed


lemma resext_id: "n < 16777216 \<Longrightarrow> resext n = n"
proof -
  assume lt: "n < 16777216"
  from sextets_recompose [of n] have "resext n = n mod 16777216"
    unfolding resext_def .
  with lt show ?thesis by simp
qed

lemma val3_less:
  fixes a b c :: nat
  shows "a < 256 \<Longrightarrow> b < 256 \<Longrightarrow> c < 256 \<Longrightarrow> a * 65536 + b * 256 + c < 16777216"
  by simp

lemma decodeQuanta_full:
  "decodeQuanta (enc64 (val div 262144) # enc64 (val div 4096) # enc64 (val div 64) # enc64 val # src) =
     (case decodeQuanta src of
        Inl err \<Rightarrow> Inl err
      | Inr bs \<Rightarrow> Inr (char_of (resext val div 65536) # char_of (resext val div 256) # char_of (resext val) # bs))"
  by (simp add: decodeMap_enc64 enc64_not_special resext_def Let_def split: sum.splits)

lemma low_bits2:
  fixes a b :: nat
  shows "(a * 65536 + b * 256) mod 64 = 0"
proof -
  have "a * 65536 + b * 256 = (a * 1024 + b * 4) * 64" by simp
  then show ?thesis by (simp only: mod_mult_self2_is_0)
qed

lemma low_bits1:
  fixes a :: nat
  shows "(a * 65536) div 64 mod 64 = 0" "(a * 65536) mod 64 = 0"
proof -
  have e: "a * 65536 = (a * 1024) * 64" by simp
  have "(a * 65536) div 64 = a * 16 * 64"
    by (subst e) simp
  then show "(a * 65536) div 64 mod 64 = 0"
    by (simp only: mod_mult_self2_is_0)
  show "(a * 65536) mod 64 = 0"
    by (subst e) (simp only: mod_mult_self2_is_0)
qed

lemma decodeQuanta_rest2:
  assumes "val mod 64 = 0"
  shows "decodeQuanta [enc64 (val div 262144), enc64 (val div 4096), enc64 (val div 64), padChar] =
     Inr [char_of (resext val div 65536), char_of (resext val div 256)]"
  using assms
  by (simp add: decodeMap_enc64 enc64_not_special resext_def Let_def)

lemma decodeQuanta_rest1:
  assumes "val div 64 mod 64 = 0" "val mod 64 = 0"
  shows "decodeQuanta [enc64 (val div 262144), enc64 (val div 4096), padChar, padChar] =
     Inr [char_of (resext val div 65536)]"
  using assms
  by (simp add: decodeMap_enc64 enc64_not_special resext_def Let_def)

lemma decodeQuanta_Encode:
  "decodeQuanta (EncodeToString bs) = Inr bs"
proof (induction bs rule: EncodeToString.induct)
  case (1 b0 b1 b2 src)
  let ?val = "of_char b0 * 65536 + of_char b1 * 256 + of_char b2 :: nat"
  have lt: "?val < 16777216"
    by (rule val3_less) (rule of_char_less)+
  have r: "resext ?val = ?val" using lt by (rule resext_id)
  have b: "char_of (?val div 65536) = b0" "char_of (?val div 256) = b1" "char_of ?val = b2"
    by (rule char_of_byte, simp add: bytes_of_val of_char_less)+
  show ?case
    using "1.IH" [OF refl] by (simp only: EncodeToString.simps Let_def decodeQuanta_full r b sum.case)
next
  case (2 b0 b1)
  let ?val = "of_char b0 * 65536 + of_char b1 * 256 :: nat"
  have lt: "?val < 16777216"
    using val3_less [of "of_char b0" "of_char b1" 0] by (simp add: of_char_less)
  have r: "resext ?val = ?val" using lt by (rule resext_id)
  have b: "char_of (?val div 65536) = b0" "char_of (?val div 256) = b1"
    using bytes_of_val [of "of_char b1" 0 "of_char b0"]
    by (auto intro!: char_of_byte simp: of_char_less)
  show ?case
    by (simp only: EncodeToString.simps Let_def decodeQuanta_rest2 [OF low_bits2] r b)
next
  case (3 b0)
  let ?val = "of_char b0 * 65536 :: nat"
  have lt: "?val < 16777216"
    using val3_less [of "of_char b0" 0 0] by (simp add: of_char_less)
  have r: "resext ?val = ?val" using lt by (rule resext_id)
  have b: "char_of (?val div 65536) = b0"
    by (rule char_of_byte) simp
  show ?case
    by (simp only: EncodeToString.simps Let_def decodeQuanta_rest1 [OF low_bits1] r b)
next
  case 4
  show ?case by simp
qed

lemma EncodeToString_clean:
  "filter (\<lambda>c. c \<noteq> CHR 0x0D \<and> c \<noteq> CHR 0x0A) (EncodeToString bs) = EncodeToString bs"
  by (induction bs rule: EncodeToString.induct)
     (simp_all add: Let_def enc64_not_special padChar_def)

lemma DecodeString_EncodeToString: "DecodeString (EncodeToString bs) = Inr bs"
  by (simp add: DecodeString_def EncodeToString_clean decodeQuanta_Encode)



section \<open>The stub store: properties\<close>

lemma writeStubFile_file:
  assumes "\<not> IsDir fi" "writeStubFile x p fi fs = (None, fs')"
  shows "nodes fs' = (nodes fs)(p \<mapsto> SymlinkNode (EncodeToString (BytesFileInfo x (fileInfoRemote fi))))"
    and "nodes fs p = None"
  using assms by (auto simp: writeStubFile_def os_Symlink_def Let_def split: if_splits)

lemma writeStubFile_dir:
  assumes "IsDir fi" "writeStubFile x p fi fs = (None, fs')"
  shows "nodes fs' = (nodes fs)(p \<mapsto> DirNode)" and "nodes fs p = None"
  using assms by (auto simp: writeStubFile_def os_Mkdir_def split: if_splits)

lemma readStubFile_after_write:
  assumes "\<not> IsDir fi" "writeStubFile x p fi fs = (None, fs')"
  shows "readStubFile x p fb fs' =
     (case FileInfoFrom x (BytesFileInfo x (fileInfoRemote fi)) of Inl e \<Rightarrow> fb | Inr ret \<Rightarrow> ret)"
  using writeStubFile_file(1) [OF assms]
  by (simp add: readStubFile_def os_Readlink_def DecodeString_EncodeToString)

lemma readStubFile_after_mkdir:
  assumes "IsDir fi" "writeStubFile x p fi fs = (None, fs')"
  shows "os_Lstat p fs' = Inr (SysFileInfo (path_Base p) 0 ModeDir None)"
    and "readStubFile x p fb fs' = fb"
  using writeStubFile_dir(1) [OF assms]
  by (simp_all add: readStubFile_def os_Readlink_def os_Lstat_def)

lemma IsDir_ModeDir: "IsDir (SysFileInfo name sz ModeDir mt)"
  by (simp add: ModeDir_def)

text \<open>
  C5. Let a stub be written for a record at a local path, the write returning nil. If the
  record is not a directory, and the library's serializer gives back name, size and
  is-directory flag of the record it serialized, then \<open>readStubFile\<close> at that path
  returns an info with the name, the size and the is-directory flag of the record. If the
  record is a directory, the path is then a local directory: its \<open>Lstat\<close> info is a
  directory, and so is what \<open>readStubFile\<close> returns for it.
\<close>

theorem stub_roundtrip:
  assumes "writeStubFile x p fi fs = (None, fs')"
  shows "(\<not> IsDir fi \<and> codec_preserves x fi \<longrightarrow>
            Name (readStubFile x p fb fs') = Name fi \<and>
            Size (readStubFile x p fb fs') = Size fi \<and>
            IsDir (readStubFile x p fb fs') = IsDir fi) \<and>
         (IsDir fi \<longrightarrow>
            (case os_Lstat p fs' of
               Inl err \<Rightarrow> False
             | Inr info \<Rightarrow> IsDir info = IsDir fi \<and> IsDir (readStubFile x p info fs') = IsDir fi))"
proof (cases "IsDir fi")
  case True
  with readStubFile_after_mkdir [OF True assms] IsDir_ModeDir show ?thesis
    by simp
next
  case False
  with readStubFile_after_write [OF False assms, of fb] show ?thesis
    by (auto simp: codec_preserves_def split: sum.splits)
qed

theorem stub_roundtrip_witness:
  "fst (writeStubFile demoExt ''/r/a/x.txt'' (XFileInfo ''x.txt'' 100 (Some 700)) demoDisk) = None \<and>
   \<not> IsDir (XFileInfo ''x.txt'' 100 (Some 700)) \<and>
   codec_preserves demoExt (XFileInfo ''x.txt'' 100 (Some 700)) \<and>
   Name (readStubFile demoExt ''/r/a/x.txt'' (XDirInfo ''fallback'')
      (snd (writeStubFile demoExt ''/r/a/x.txt'' (XFileInfo ''x.txt'' 100 (Some 700)) demoDisk))) = ''x.txt'' \<and>
   Size (readStubFile demoExt ''/r/a/x.txt'' (XDirInfo ''fallback'')
      (snd (writeStubFile demoExt ''/r/a/x.txt'' (XFileInfo ''x.txt'' 100 (Some 700)) demoDisk))) = 100 \<and>
   \<not> IsDir (readStubFile demoExt ''/r/a/x.txt'' (XDirInfo ''fallback'')
      (snd (writeStubFile demoExt ''/r/a/x.txt'' (XFileInfo ''x.txt'' 100 (Some 700)) demoDisk))) \<and>
   fst (writeStubFile demoExt ''/r/a/y'' (XDirInfo ''y'') demoDisk) = None \<and>
   os_Lstat ''/r/a/y'' (snd (writeStubFile demoExt ''/r/a/y'' (XDirInfo ''y'') demoDisk)) =
     Inr (SysFileInfo ''y'' 0 ModeDir None)"
proof -
  let ?fi = "XFileInfo ''x.txt'' 100 (Some 700)"
  let ?w = "writeStubFile demoExt ''/r/a/x.txt'' ?fi demoDisk"
  let ?d = "writeStubFile demoExt ''/r/a/y'' (XDirInfo ''y'') demoDisk"
  have fw: "fst ?w = None"
    by (simp add: writeStubFile_def os_Symlink_def demoDisk_def Let_def)
  have fd: "fst ?d = None"
    by (simp add: writeStubFile_def os_Mkdir_def demoDisk_def)
  from fw have w: "?w = (None, snd ?w)"
    by (simp add: prod_eq_iff)
  from fd have d: "?d = (None, snd ?d)"
    by (simp add: prod_eq_iff)
  have c: "codec_preserves demoExt ?fi"
    by (simp add: codec_preserves_def demoExt_def ModeSymlink_def ModeIrregular_def ModeDir_def)
  have l: "os_Lstat ''/r/a/y'' (snd ?d) = Inr (SysFileInfo ''y'' 0 ModeDir None)"
    by (simp add: writeStubFile_def os_Mkdir_def demoDisk_def os_Lstat_def path_Base_def)
  from stub_roundtrip [OF w, of "XDirInfo ''fallback''"] stub_roundtrip [OF d] fw fd c l
  show ?thesis by simp
qed

text \<open>
  C6. \<open>readStubFile\<close> returns an info in every case, never an error. It returns the
  fallback info as it is when the path is not a symbolic link, when the link's target is
  not accepted by the URL-safe base64 decoder, and when the decoded bytes do not
  deserialize; it returns the deserialized info when the path is a link whose target
  decodes and deserializes.
\<close>

theorem readStubFile_cases:
  "((\<forall>dest. nodes fs p \<noteq> Some (SymlinkNode dest)) \<longrightarrow> readStubFile x p fb fs = fb) \<and>
   (nodes fs p = Some (SymlinkNode dest) \<and> DecodeString dest = Inl e2 \<longrightarrow>
      readStubFile x p fb fs = fb) \<and>
   (nodes fs p = Some (SymlinkNode dest) \<and> DecodeString dest = Inr bytes \<and>
    FileInfoFrom x bytes = Inl e3 \<longrightarrow>
      readStubFile x p fb fs = fb) \<and>
   (nodes fs p = Some (SymlinkNode dest) \<and> DecodeString dest = Inr bytes \<and>
    FileInfoFrom x bytes = Inr ret \<longrightarrow>
      readStubFile x p fb fs = ret)"
  by (auto simp: readStubFile_def os_Readlink_def split: option.splits node.splits)

lemma stubDisk_nodes:
  "nodes stubDisk ''/r/a/x.txt'' = Some (SymlinkNode ''eC50eHQ='')"
  "nodes stubDisk ''/r/a/bad'' = Some (SymlinkNode ''!!'')"
  "nodes stubDisk ''/r/a/empty'' = Some (SymlinkNode '''')"
  "nodes stubDisk ''/r/a/f'' = Some (FileNode ''data'')"
  "nodes stubDisk ''/r/a/none'' = None"
  by (simp_all add: stubDisk_def)

lemma Encode_x_txt: "EncodeToString ''x.txt'' = ''eC50eHQ=''"
  by (simp add: enc64_def encodeURL_def padChar_def)

lemma stubDisk_decodes:
  "DecodeString ''eC50eHQ='' = Inr ''x.txt''"
  "DecodeString ''!!'' = Inl CorruptInputError"
  "DecodeString '''' = Inr ''''"
proof -
  show "DecodeString ''eC50eHQ='' = Inr ''x.txt''"
    using DecodeString_EncodeToString [of "''x.txt''"] by (simp only: Encode_x_txt)
  show "DecodeString ''!!'' = Inl CorruptInputError"
    by (simp add: DecodeString_def)
  show "DecodeString '''' = Inr ''''"
    by (simp add: DecodeString_def)
qed

theorem readStubFile_cases_witness:
  "readStubFile demoExt ''/r/a/f'' (XDirInfo ''fallback'') stubDisk = XDirInfo ''fallback'' \<and>
   readStubFile demoExt ''/r/a/none'' (XDirInfo ''fallback'') stubDisk = XDirInfo ''fallback'' \<and>
   readStubFile demoExt ''/r/a/bad'' (XDirInfo ''fallback'') stubDisk = XDirInfo ''fallback'' \<and>
   readStubFile demoExt ''/r/a/empty'' (XDirInfo ''fallback'') stubDisk = XDirInfo ''fallback'' \<and>
   readStubFile demoExt ''/r/a/x.txt'' (XDirInfo ''fallback'') stubDisk =
     SysFileInfo ''x.txt'' 100 (ModeSymlink OR ModeIrregular) None"
proof -
  have f: "FileInfoFrom demoExt '''' = Inl ErrInvalid"
    "FileInfoFrom demoExt ''x.txt'' = Inr (SysFileInfo ''x.txt'' 100 (ModeSymlink OR ModeIrregular) None)"
    by (simp_all add: demoExt_def)
  from stubDisk_nodes stubDisk_decodes f
    readStubFile_cases [where fs = stubDisk and p = "''/r/a/f''" and x = demoExt
      and fb = "XDirInfo ''fallback''"]
    readStubFile_cases [where fs = stubDisk and p = "''/r/a/none''" and x = demoExt
      and fb = "XDirInfo ''fallback''"]
    readStubFile_cases [where fs = stubDisk and p = "''/r/a/bad''" and x = demoExt
      and fb = "XDirInfo ''fallback''" and dest = "''!!''" and ?e2.0 = CorruptInputError]
    readStubFile_cases [where fs = stubDisk and p = "''/r/a/empty''" and x = demoExt
      and fb = "XDirInfo ''fallback''" and dest = "''''" and bytes = "''''" and ?e3.0 = ErrInvalid]
    readStubFile_cases [where fs = stubDisk and p = "''/r/a/x.txt''" and x = demoExt
      and fb = "XDirInfo ''fallback''" and dest = "''eC50eHQ=''" and bytes = "''x.txt''"
      and ret = "SysFileInfo ''x.txt'' 100 (ModeSymlink OR ModeIrregular) None"]
  show ?thesis by simp
qed


section \<open>The stub-writing pass: properties\<close>

lemma stubLoop_count:
  "SyncOpen_stubLoop x base fis n fs =
     (n + length (filter (\<lambda>r. r \<noteq> None) (stubWrites x base fis fs)),
      snd (SyncOpen_stubLoop x base fis 0 fs))"
proof (induction fis arbitrary: n fs)
  case Nil
  show ?case by simp
next
  case (Cons fi fis)
  obtain e fs' where w: "writeStubFile x (base @ ''/'' @ Name fi) fi fs = (e, fs')"
    by (cases "writeStubFile x (base @ ''/'' @ Name fi) fi fs")
  show ?case
    using w Cons.IH [of "if e \<noteq> None then n + 1 else n" fs']
      Cons.IH [of "if e \<noteq> None then 0 + 1 else 0" fs']
    by (simp add: Let_def)
qed

lemma no_failure_iff:
  "length (filter (\<lambda>r. r \<noteq> None) rs) = 0 \<longleftrightarrow> (\<forall>r \<in> set rs. r = None)"
  by (induction rs) auto

lemma writeStubFile_keeps:
  assumes "writeStubFile x p fi fs = (e, fs')" "nodes fs q = Some nd"
  shows "nodes fs' q = Some nd"
  using assms
  by (auto simp: writeStubFile_def os_Mkdir_def os_Symlink_def Let_def split: if_splits)

lemma writeStubFile_elsewhere:
  assumes "writeStubFile x p fi fs = (e, fs')" "q \<noteq> p"
  shows "nodes fs' q = nodes fs q"
  using assms
  by (auto simp: writeStubFile_def os_Mkdir_def os_Symlink_def Let_def split: if_splits)

lemma writeStubFile_hasStub:
  assumes "writeStubFile x p fi fs = (None, fs')"
  shows "hasStub x fs' p fi"
proof (cases "IsDir fi")
  case True
  with writeStubFile_dir(1) [OF True assms] show ?thesis by (simp add: hasStub_def)
next
  case False
  with writeStubFile_file(1) [OF False assms] show ?thesis by (simp add: hasStub_def)
qed

lemma stubLoop_keeps:
  "nodes fs q = Some nd \<Longrightarrow> nodes (snd (SyncOpen_stubLoop x base fis n fs)) q = Some nd"
proof (induction fis arbitrary: n fs)
  case Nil
  then show ?case by simp
next
  case (Cons fi fis)
  obtain e fs' where w: "writeStubFile x (base @ ''/'' @ Name fi) fi fs = (e, fs')"
    by (cases "writeStubFile x (base @ ''/'' @ Name fi) fi fs")
  from writeStubFile_keeps [OF w Cons.prems] have "nodes fs' q = Some nd" .
  from Cons.IH [OF this] w show ?case by (simp add: Let_def)
qed

lemma stubLoop_elsewhere:
  "\<forall>fi \<in> set fis. base @ ''/'' @ Name fi \<noteq> q \<Longrightarrow>
     nodes (snd (SyncOpen_stubLoop x base fis n fs)) q = nodes fs q"
proof (induction fis arbitrary: n fs)
  case Nil
  show ?case by simp
next
  case (Cons fi fis)
  obtain e fs' where w: "writeStubFile x (base @ ''/'' @ Name fi) fi fs = (e, fs')"
    by (cases "writeStubFile x (base @ ''/'' @ Name fi) fi fs")
  from Cons.prems have ne: "q \<noteq> base @ ''/'' @ Name fi"
    and rest: "\<forall>fi \<in> set fis. base @ ''/'' @ Name fi \<noteq> q"
    by auto
  from writeStubFile_elsewhere [OF w ne] Cons.IH [OF rest] w show ?case
    by (simp add: Let_def)
qed

lemma stubLoop_stubs:
  "\<forall>r \<in> set (stubWrites x base fis fs). r = None \<Longrightarrow>
     \<forall>fi \<in> set fis. hasStub x (snd (SyncOpen_stubLoop x base fis n fs)) (base @ ''/'' @ Name fi) fi"
proof (induction fis arbitrary: n fs)
  case Nil
  show ?case by simp
next
  case (Cons fi fis)
  obtain e fs' where w: "writeStubFile x (base @ ''/'' @ Name fi) fi fs = (e, fs')"
    by (cases "writeStubFile x (base @ ''/'' @ Name fi) fi fs")
  from Cons.prems w have e: "e = None" and rest: "\<forall>r \<in> set (stubWrites x base fis fs'). r = None"
    by (simp_all add: Let_def)
  have loop: "SyncOpen_stubLoop x base (fi # fis) n fs = SyncOpen_stubLoop x base fis n fs'"
    using w e by (simp add: Let_def)
  from w e have "hasStub x fs' (base @ ''/'' @ Name fi) fi"
    by (simp add: writeStubFile_hasStub)
  then have "hasStub x (snd (SyncOpen_stubLoop x base fis n fs')) (base @ ''/'' @ Name fi) fi"
    by (auto simp: hasStub_def stubLoop_keeps split: if_splits)
  with Cons.IH [OF rest, of n] loop show ?case by simp
qed

lemma WriteFile_follow_keeps:
  "os_WriteFile_follow hops p bytes fs = (e, fs') \<Longrightarrow> nodes fs q = Some nd \<Longrightarrow>
     (\<forall>old. nd \<noteq> FileNode old) \<Longrightarrow> nodes fs' q = Some nd"
proof (induction hops arbitrary: p)
  case 0
  then show ?case by simp
next
  case (Suc hops)
  then show ?case
    by (auto split: option.splits node.splits if_splits)
qed

lemma WriteFile_follow_present:
  "os_WriteFile_follow hops p bytes fs = (None, fs') \<Longrightarrow> nodes fs' p \<noteq> None"
proof (induction hops arbitrary: p)
  case 0
  then show ?case by simp
next
  case (Suc hops)
  show ?case
  proof (cases "nodes fs p")
    case None
    with Suc.prems show ?thesis by (auto split: if_splits)
  next
    case (Some nd)
    show ?thesis
    proof (cases nd)
      case DirNode
      with Some Suc.prems show ?thesis by simp
    next
      case (SymlinkNode dest)
      with Some Suc.prems have "os_WriteFile_follow hops (linkTarget p dest) bytes fs = (None, fs')"
        by simp
      from WriteFile_follow_keeps [OF this, of p nd] Some SymlinkNode show ?thesis by simp
    next
      case (FileNode old)
      with Some Suc.prems show ?thesis by (auto split: if_splits)
    qed
  qed
qed

lemma touchDirCached_keeps_stub:
  assumes "hasStub x fs p fi"
  shows "hasStub x (snd (touchDirCached x base fs)) p fi"
proof -
  obtain e fs' where t: "os_WriteFile_follow 40 (Join x base dirListCacheFile) [] fs = (e, fs')"
    by (cases "os_WriteFile_follow 40 (Join x base dirListCacheFile) [] fs")
  then have s: "snd (touchDirCached x base fs) = fs'"
    by (simp add: touchDirCached_def os_WriteFile_def)
  from assms WriteFile_follow_keeps [OF t, of p] show ?thesis
    unfolding s hasStub_def by (auto split: if_splits)
qed

lemma touchDirCached_present:
  assumes "touchDirCached x base fs = (None, fs')"
  shows "checkDirCached x base fs' \<noteq> None"
proof -
  from assms have "os_WriteFile_follow 40 (Join x base dirListCacheFile) [] fs = (None, fs')"
    by (simp add: touchDirCached_def os_WriteFile_def)
  from WriteFile_follow_present [OF this] show ?thesis
    by (auto simp: checkDirCached_def os_Lstat_def Let_def split: option.splits node.splits)
qed

lemma os_WriteFile_new:
  assumes "nodes fs p = None" "\<not> refused fs p"
  shows "os_WriteFile p bytes fs = (None, fs\<lparr>nodes := (nodes fs)(p \<mapsto> FileNode bytes)\<rparr>)"
proof -
  have n: "(40::nat) = Suc 39" by simp
  have "os_WriteFile_follow (Suc k) p bytes fs =
      (None, fs\<lparr>nodes := (nodes fs)(p \<mapsto> FileNode bytes)\<rparr>)" for k
    using assms by simp
  then show ?thesis
    unfolding os_WriteFile_def n .
qed

lemma writeStubFile_refused:
  "writeStubFile x p fi fs = (e, fs') \<Longrightarrow> refused fs' = refused fs"
  by (auto simp: writeStubFile_def os_Mkdir_def os_Symlink_def Let_def split: if_splits)

lemma stubLoop_refused:
  "refused (snd (SyncOpen_stubLoop x base fis n fs)) = refused fs"
proof (induction fis arbitrary: n fs)
  case Nil
  show ?case by simp
next
  case (Cons fi fis)
  obtain e fs' where w: "writeStubFile x (base @ ''/'' @ Name fi) fi fs = (e, fs')"
    by (cases "writeStubFile x (base @ ''/'' @ Name fi) fi fs")
  from writeStubFile_refused [OF w] Cons.IH [of _ fs'] w show ?case
    by (simp add: Let_def)
qed

lemma stubPass_unfold:
  "SyncOpen_stubPass x base fis fs =
     (if \<forall>r \<in> set (stubWrites x base fis fs). r = None
      then (Touched (fst (touchDirCached x base (snd (SyncOpen_stubLoop x base fis 0 fs)))),
            snd (touchDirCached x base (snd (SyncOpen_stubLoop x base fis 0 fs))))
      else (Warned (length (filter (\<lambda>r. r \<noteq> None) (stubWrites x base fis fs))),
            snd (SyncOpen_stubLoop x base fis 0 fs)))"
proof -
  let ?n = "length (filter (\<lambda>r. r \<noteq> None) (stubWrites x base fis fs))"
  let ?fs1 = "snd (SyncOpen_stubLoop x base fis 0 fs)"
  have loop: "SyncOpen_stubLoop x base fis 0 fs = (?n, ?fs1)"
    using stubLoop_count [of x base fis 0 fs] by simp
  have pass: "SyncOpen_stubPass x base fis fs =
      (if ?n = 0 then (Touched (fst (touchDirCached x base ?fs1)), snd (touchDirCached x base ?fs1))
       else (Warned ?n, ?fs1))"
    unfolding SyncOpen_stubPass_def by (subst loop) (simp only: split_conv Let_def split_beta fst_conv snd_conv)
  have h: "?n = 0 \<longleftrightarrow> (\<forall>r \<in> set (stubWrites x base fis fs). r = None)"
    by (rule no_failure_iff)
  show ?thesis by (simp only: pass h)
qed

lemma WriteFile_follow_failed:
  "os_WriteFile_follow hops p bytes fs = (Some e, fs') \<Longrightarrow> fs' = fs"
proof (induction hops arbitrary: p)
  case 0
  then show ?case by simp
next
  case (Suc hops)
  then show ?case
    by (auto split: option.splits node.splits if_splits)
qed

lemma touchDirCached_failed:
  assumes "fst (touchDirCached x base fs) \<noteq> None"
  shows "snd (touchDirCached x base fs) = fs"
proof -
  obtain e fs' where t: "os_WriteFile_follow 40 (Join x base dirListCacheFile) [] fs = (e, fs')"
    by (cases "os_WriteFile_follow 40 (Join x base dirListCacheFile) [] fs")
  with assms obtain err where "e = Some err"
    by (auto simp: touchDirCached_def os_WriteFile_def)
  with t WriteFile_follow_failed [of 40 _ "[]" fs err fs'] show ?thesis
    by (simp add: touchDirCached_def os_WriteFile_def)
qed

lemma os_WriteFile_refused:
  assumes "nodes fs p = None" "refused fs p"
  shows "os_WriteFile p bytes fs = (Some (PathError ''open'' p ErrPermission), fs)"
proof -
  have n: "(40::nat) = Suc 39" by simp
  have "os_WriteFile_follow (Suc k) p bytes fs = (Some (PathError ''open'' p ErrPermission), fs)" for k
    using assms by simp
  then show ?thesis
    unfolding os_WriteFile_def n .
qed

lemma sentinel_absent_iff:
  "checkDirCached x base fs = None \<longleftrightarrow> nodes fs (Join x base dirListCacheFile) = None"
  by (auto simp: checkDirCached_def os_Lstat_def Let_def split: option.splits node.splits)

text \<open>
  C3, as the code has it. In the stub-writing pass, \<open>touchDirCached\<close> is called if and
  only if every child stub write of the pass returned nil; if at least one failed, it is
  not called: the pass logs the number of failures and leaves the disk as the writes left
  it. If it is called, every child of the listing has its stub on the disk afterwards, a
  local directory for a directory and the symbolic link otherwise. What the call returns
  is dropped. For a directory that had no sentinel before the pass and has no child named
  like the sentinel: the sentinel is present after the pass if and only if
  \<open>touchDirCached\<close> was called and returned nil, so that its presence implies that every
  child stub write returned nil and every child of the listing has its stub or directory;
  and the call does return nil when every child write returned nil and the disk does not
  refuse the sentinel.
\<close>

theorem stubPass_sentinel:
  "((\<exists>e. fst (SyncOpen_stubPass x base fis fs) = Touched e) \<longleftrightarrow>
      (\<forall>r \<in> set (stubWrites x base fis fs). r = None)) \<and>
   ((\<exists>r \<in> set (stubWrites x base fis fs). r \<noteq> None) \<longrightarrow>
      SyncOpen_stubPass x base fis fs =
        (Warned (length (filter (\<lambda>r. r \<noteq> None) (stubWrites x base fis fs))),
         snd (SyncOpen_stubLoop x base fis 0 fs))) \<and>
   ((\<exists>e. fst (SyncOpen_stubPass x base fis fs) = Touched e) \<longrightarrow>
      (\<forall>fi \<in> set fis.
         hasStub x (snd (SyncOpen_stubPass x base fis fs)) (base @ ''/'' @ Name fi) fi)) \<and>
   (fresh_sentinel x base fis fs \<longrightarrow>
      (checkDirCached x base (snd (SyncOpen_stubPass x base fis fs)) \<noteq> None \<longleftrightarrow>
         fst (SyncOpen_stubPass x base fis fs) = Touched None) \<and>
      (checkDirCached x base (snd (SyncOpen_stubPass x base fis fs)) \<noteq> None \<longrightarrow>
         (\<forall>r \<in> set (stubWrites x base fis fs). r = None) \<and>
         (\<forall>fi \<in> set fis.
            hasStub x (snd (SyncOpen_stubPass x base fis fs)) (base @ ''/'' @ Name fi) fi)) \<and>
      ((\<forall>r \<in> set (stubWrites x base fis fs). r = None) \<and>
       \<not> refused fs (Join x base dirListCacheFile) \<longrightarrow>
         fst (SyncOpen_stubPass x base fis fs) = Touched None))"
proof -
  let ?pass = "SyncOpen_stubPass x base fis fs"
  let ?fs1 = "snd (SyncOpen_stubLoop x base fis 0 fs)"
  let ?ok = "\<forall>r \<in> set (stubWrites x base fis fs). r = None"
  let ?sentinel = "Join x base dirListCacheFile"
  let ?stubs = "\<forall>fi \<in> set fis. hasStub x (snd ?pass) (base @ ''/'' @ Name fi) fi"
  have touched: "fst ?pass = Touched (fst (touchDirCached x base ?fs1))"
    and touched_disk: "snd ?pass = snd (touchDirCached x base ?fs1)" if ?ok
    using that by (simp_all add: stubPass_unfold)
  have warned: "?pass =
      (Warned (length (filter (\<lambda>r. r \<noteq> None) (stubWrites x base fis fs))), ?fs1)" if "\<not> ?ok"
    using that by (simp add: stubPass_unfold)
  have a: "(\<exists>e. fst ?pass = Touched e) \<longleftrightarrow> ?ok"
  proof (cases ?ok)
    case True
    with touched show ?thesis by simp
  next
    case False
    with warned [OF False] show ?thesis by simp
  qed
  have b: "?pass =
      (Warned (length (filter (\<lambda>r. r \<noteq> None) (stubWrites x base fis fs))), ?fs1)"
    if f: "\<exists>r \<in> set (stubWrites x base fis fs). r \<noteq> None"
  proof -
    from f have "\<not> ?ok" by blast
    then show ?thesis by (rule warned)
  qed
  have c: ?stubs if t: "\<exists>e. fst ?pass = Touched e"
  proof -
    from t a have ok: ?ok by simp
    from stubLoop_stubs [OF ok, of 0] show ?thesis
      by (simp add: touched_disk [OF ok] touchDirCached_keeps_stub)
  qed
  have present: "checkDirCached x base (snd ?pass) \<noteq> None" if t: "fst ?pass = Touched None"
  proof -
    from t a have ok: ?ok by simp
    from t touched [OF ok] have "fst (touchDirCached x base ?fs1) = None" by simp
    then have "touchDirCached x base ?fs1 = (None, snd (touchDirCached x base ?fs1))"
      by (simp add: prod_eq_iff)
    from touchDirCached_present [OF this] show ?thesis
      unfolding touched_disk [OF ok] .
  qed
  have d: "(checkDirCached x base (snd ?pass) \<noteq> None \<longleftrightarrow> fst ?pass = Touched None) \<and>
      (checkDirCached x base (snd ?pass) \<noteq> None \<longrightarrow> ?ok \<and> ?stubs) \<and>
      (?ok \<and> \<not> refused fs ?sentinel \<longrightarrow> fst ?pass = Touched None)"
    if fresh: "fresh_sentinel x base fis fs"
  proof -
    from fresh have absent: "nodes fs ?sentinel = None"
      and others: "\<forall>fi \<in> set fis. base @ ''/'' @ Name fi \<noteq> ?sentinel"
      by (simp_all add: fresh_sentinel_def sentinel_absent_iff)
    from stubLoop_elsewhere [OF others, of x 0 fs] absent
    have n: "nodes ?fs1 ?sentinel = None" by simp
    have only: "fst ?pass = Touched None" if p: "checkDirCached x base (snd ?pass) \<noteq> None"
    proof (rule ccontr)
      assume no: "fst ?pass \<noteq> Touched None"
      have "snd ?pass = ?fs1"
      proof (cases ?ok)
        case False
        from warned [OF False] show ?thesis by simp
      next
        case True
        with touched [OF True] no have "fst (touchDirCached x base ?fs1) \<noteq> None" by auto
        from touchDirCached_failed [OF this] touched_disk [OF True] show ?thesis by simp
      qed
      with n have "checkDirCached x base (snd ?pass) = None"
        by (simp add: sentinel_absent_iff)
      with p show False by simp
    qed
    have accepted: "fst ?pass = Touched None" if ok: ?ok and acc: "\<not> refused fs ?sentinel"
    proof -
      from acc have r: "\<not> refused ?fs1 ?sentinel"
        by (simp add: stubLoop_refused)
      have "fst (touchDirCached x base ?fs1) = None"
        unfolding touchDirCached_def Let_def by (simp add: os_WriteFile_new [OF n r])
      with touched [OF ok] show ?thesis by simp
    qed
    have all: "?ok \<and> ?stubs" if p: "checkDirCached x base (snd ?pass) \<noteq> None"
    proof -
      from only [OF p] have t: "\<exists>e. fst ?pass = Touched e" by blast
      with a c [OF t] show ?thesis by simp
    qed
    from only present all accepted show ?thesis by blast
  qed
  note b' = impI [of "\<exists>r \<in> set (stubWrites x base fis fs). r \<noteq> None", OF b]
  note c' = impI [of "\<exists>e. fst ?pass = Touched e", OF c]
  note d' = impI [of "fresh_sentinel x base fis fs", OF d]
  show ?thesis
    by (rule conjI [OF a conjI [OF b' conjI [OF c' d']]])
qed

lemma demo_write_x:
  "writeStubFile demoExt ''/r/a/x.txt'' (XFileInfo ''x.txt'' 100 (Some 700)) fs =
     os_Symlink ''eC50eHQ='' ''/r/a/x.txt'' fs"
  by (simp add: writeStubFile_def demoExt_def Let_def Encode_x_txt del: EncodeToString.simps)

lemma demo_write_z:
  "writeStubFile demoExt ''/r/a/z'' (XFileInfo ''z'' 1 (Some 900)) fs =
     os_Symlink (EncodeToString ''z'') ''/r/a/z'' fs"
  by (simp add: writeStubFile_def demoExt_def Let_def del: EncodeToString.simps)

lemma demo_write_y:
  "writeStubFile demoExt ''/r/a/y'' (XDirInfo ''y'') fs = os_Mkdir ''/r/a/y'' fs"
  by (simp add: writeStubFile_def)

lemma demo_write_cache:
  "writeStubFile demoExt ''/r/a/.bktls.cache'' (XFileInfo ''.bktls.cache'' 3 (Some 500)) fs =
     os_Symlink (EncodeToString ''.bktls.cache'') ''/r/a/.bktls.cache'' fs"
  by (simp add: writeStubFile_def demoExt_def Let_def del: EncodeToString.simps)

lemma demo_join: "Join demoExt ''/r/a'' dirListCacheFile = ''/r/a/.bktls.cache''"
  by (simp add: demoExt_def dirListCacheFile_def)

lemma demo_stubWrites_ok:
  "stubWrites demoExt ''/r/a'' [XFileInfo ''x.txt'' 100 (Some 700), XDirInfo ''y''] demoDisk =
     [None, None]"
  by (simp add: demo_write_x demo_write_y os_Mkdir_def os_Symlink_def demoDisk_def)

lemma demo_stubWrites_refused:
  "stubWrites demoExt ''/r/a''
     [XFileInfo ''x.txt'' 100 (Some 700), XFileInfo ''z'' 1 (Some 900), XDirInfo ''y''] demoDisk =
     [None, Some (PathError ''symlink'' ''/r/a/z'' ErrPermission), None]"
  by (simp add: demo_write_x demo_write_y demo_write_z os_Mkdir_def os_Symlink_def demoDisk_def
      del: EncodeToString.simps)

lemma demo_fresh:
  "fresh_sentinel demoExt ''/r/a'' [XFileInfo ''x.txt'' 100 (Some 700), XDirInfo ''y''] demoDisk"
  "fresh_sentinel demoExt ''/r/a''
     [XFileInfo ''x.txt'' 100 (Some 700), XFileInfo ''z'' 1 (Some 900), XDirInfo ''y''] demoDisk"
  by (simp_all add: fresh_sentinel_def sentinel_absent_iff demo_join demoDisk_def)

theorem stubPass_sentinel_witness:
  "fresh_sentinel demoExt ''/r/a'' [XFileInfo ''x.txt'' 100 (Some 700), XDirInfo ''y''] demoDisk \<and>
   stubWrites demoExt ''/r/a'' [XFileInfo ''x.txt'' 100 (Some 700), XDirInfo ''y''] demoDisk =
     [None, None] \<and>
   \<not> refused demoDisk (Join demoExt ''/r/a'' dirListCacheFile) \<and>
   fst (SyncOpen_stubPass demoExt ''/r/a'' [XFileInfo ''x.txt'' 100 (Some 700), XDirInfo ''y''] demoDisk) =
     Touched None \<and>
   checkDirCached demoExt ''/r/a''
     (snd (SyncOpen_stubPass demoExt ''/r/a'' [XFileInfo ''x.txt'' 100 (Some 700), XDirInfo ''y''] demoDisk))
     \<noteq> None \<and>
   hasStub demoExt
     (snd (SyncOpen_stubPass demoExt ''/r/a'' [XFileInfo ''x.txt'' 100 (Some 700), XDirInfo ''y''] demoDisk))
     ''/r/a/x.txt'' (XFileInfo ''x.txt'' 100 (Some 700)) \<and>
   hasStub demoExt
     (snd (SyncOpen_stubPass demoExt ''/r/a'' [XFileInfo ''x.txt'' 100 (Some 700), XDirInfo ''y''] demoDisk))
     ''/r/a/y'' (XDirInfo ''y'') \<and>
   fresh_sentinel demoExt ''/r/a''
     [XFileInfo ''x.txt'' 100 (Some 700), XFileInfo ''z'' 1 (Some 900), XDirInfo ''y''] demoDisk \<and>
   stubWrites demoExt ''/r/a''
     [XFileInfo ''x.txt'' 100 (Some 700), XFileInfo ''z'' 1 (Some 900), XDirInfo ''y''] demoDisk =
     [None, Some (PathError ''symlink'' ''/r/a/z'' ErrPermission), None] \<and>
   fst (SyncOpen_stubPass demoExt ''/r/a''
     [XFileInfo ''x.txt'' 100 (Some 700), XFileInfo ''z'' 1 (Some 900), XDirInfo ''y''] demoDisk) =
     Warned 1 \<and>
   checkDirCached demoExt ''/r/a''
     (snd (SyncOpen_stubPass demoExt ''/r/a''
        [XFileInfo ''x.txt'' 100 (Some 700), XFileInfo ''z'' 1 (Some 900), XDirInfo ''y''] demoDisk)) = None"
proof -
  let ?ok = "[XFileInfo ''x.txt'' 100 (Some 700), XDirInfo ''y'']"
  let ?bad = "[XFileInfo ''x.txt'' 100 (Some 700), XFileInfo ''z'' 1 (Some 900), XDirInfo ''y'']"
  let ?p1 = "SyncOpen_stubPass demoExt ''/r/a'' ?ok demoDisk"
  let ?p2 = "SyncOpen_stubPass demoExt ''/r/a'' ?bad demoDisk"
  have acc: "\<not> refused demoDisk (Join demoExt ''/r/a'' dirListCacheFile)"
    by (simp add: demo_join demoDisk_def)
  have ok: "\<forall>r \<in> set (stubWrites demoExt ''/r/a'' ?ok demoDisk). r = None"
    by (simp only: demo_stubWrites_ok) simp
  have bad: "\<exists>r \<in> set (stubWrites demoExt ''/r/a'' ?bad demoDisk). r \<noteq> None"
    by (simp only: demo_stubWrites_refused) simp
  have n: "length (filter (\<lambda>r. r \<noteq> None) (stubWrites demoExt ''/r/a'' ?bad demoDisk)) = 1"
    by (simp only: demo_stubWrites_refused) simp
  note s1 = stubPass_sentinel [of demoExt "''/r/a''" ?ok demoDisk]
  note s2 = stubPass_sentinel [of demoExt "''/r/a''" ?bad demoDisk]
  note f1 = s1 [THEN conjunct2, THEN conjunct2, THEN conjunct2, rule_format, OF demo_fresh(1)]
  note f2 = s2 [THEN conjunct2, THEN conjunct2, THEN conjunct2, rule_format, OF demo_fresh(2)]
  from f1 [THEN conjunct2, THEN conjunct2, rule_format, OF conjI [OF ok acc]]
  have t: "fst ?p1 = Touched None" .
  with f1 [THEN conjunct1] have p: "checkDirCached demoExt ''/r/a'' (snd ?p1) \<noteq> None"
    by simp
  from f1 [THEN conjunct2, THEN conjunct1, rule_format, OF p]
  have h: "\<forall>fi \<in> set ?ok. hasStub demoExt (snd ?p1) (''/r/a'' @ ''/'' @ Name fi) fi"
    by blast
  from s2 [THEN conjunct2, THEN conjunct1, rule_format, OF bad] n
  have w: "fst ?p2 = Warned 1"
    by simp
  with f2 [THEN conjunct1] have a: "checkDirCached demoExt ''/r/a'' (snd ?p2) = None"
    by simp
  from h have hx: "hasStub demoExt (snd ?p1) ''/r/a/x.txt'' (XFileInfo ''x.txt'' 100 (Some 700))"
    and hy: "hasStub demoExt (snd ?p1) ''/r/a/y'' (XDirInfo ''y'')"
    by simp_all
  from demo_fresh(1) demo_stubWrites_ok acc t p hx hy demo_fresh(2) demo_stubWrites_refused w a
  show ?thesis by (intro conjI)
qed

text \<open>
  The claim as the spec words it fails in three ways. On a disk that refuses the
  sentinel, every child stub write returns nil and no sentinel is there afterwards. On a
  disk where the sentinel is there already, a pass with a failed child write leaves it
  there, and the child \<open>z\<close> of the listing has no stub. And when a child of the listing
  is named like the sentinel, its stub is taken for the sentinel, though the write for
  the child \<open>z\<close> has failed.
\<close>

theorem stubPass_sentinel_counterexample:
  "stubWrites demoExt ''/r/a'' [XFileInfo ''x.txt'' 100 (Some 700), XDirInfo ''y'']
      sentinelRefusedDisk = [None, None] \<and>
   fst (SyncOpen_stubPass demoExt ''/r/a'' [XFileInfo ''x.txt'' 100 (Some 700), XDirInfo ''y'']
      sentinelRefusedDisk) = Touched (Some (PathError ''open'' ''/r/a/.bktls.cache'' ErrPermission)) \<and>
   checkDirCached demoExt ''/r/a''
     (snd (SyncOpen_stubPass demoExt ''/r/a'' [XFileInfo ''x.txt'' 100 (Some 700), XDirInfo ''y'']
        sentinelRefusedDisk)) = None \<and>
   stubWrites demoExt ''/r/a'' [XFileInfo ''x.txt'' 100 (Some 700), XFileInfo ''z'' 1 (Some 900)]
      cachedDisk = [None, Some (PathError ''symlink'' ''/r/a/z'' ErrPermission)] \<and>
   checkDirCached demoExt ''/r/a''
     (snd (SyncOpen_stubPass demoExt ''/r/a''
        [XFileInfo ''x.txt'' 100 (Some 700), XFileInfo ''z'' 1 (Some 900)] cachedDisk)) \<noteq> None \<and>
   nodes (snd (SyncOpen_stubPass demoExt ''/r/a''
        [XFileInfo ''x.txt'' 100 (Some 700), XFileInfo ''z'' 1 (Some 900)] cachedDisk)) ''/r/a/z'' = None \<and>
   checkDirCached demoExt ''/r/a'' demoDisk = None \<and>
   stubWrites demoExt ''/r/a''
      [XFileInfo ''.bktls.cache'' 3 (Some 500), XFileInfo ''z'' 1 (Some 900)] demoDisk =
      [None, Some (PathError ''symlink'' ''/r/a/z'' ErrPermission)] \<and>
   fst (SyncOpen_stubPass demoExt ''/r/a''
      [XFileInfo ''.bktls.cache'' 3 (Some 500), XFileInfo ''z'' 1 (Some 900)] demoDisk) = Warned 1 \<and>
   checkDirCached demoExt ''/r/a''
     (snd (SyncOpen_stubPass demoExt ''/r/a''
        [XFileInfo ''.bktls.cache'' 3 (Some 500), XFileInfo ''z'' 1 (Some 900)] demoDisk)) \<noteq> None \<and>
   nodes (snd (SyncOpen_stubPass demoExt ''/r/a''
        [XFileInfo ''.bktls.cache'' 3 (Some 500), XFileInfo ''z'' 1 (Some 900)] demoDisk)) ''/r/a/z'' = None"
proof -
  let ?ok = "[XFileInfo ''x.txt'' 100 (Some 700), XDirInfo ''y'']"
  let ?xz = "[XFileInfo ''x.txt'' 100 (Some 700), XFileInfo ''z'' 1 (Some 900)]"
  let ?cz = "[XFileInfo ''.bktls.cache'' 3 (Some 500), XFileInfo ''z'' 1 (Some 900)]"
  let ?d1 = "\<lparr>nodes = [''/r/a'' \<mapsto> DirNode, ''/r/a/x.txt'' \<mapsto> SymlinkNode ''eC50eHQ='',
                       ''/r/a/y'' \<mapsto> DirNode],
             refused = (\<lambda>path. path = ''/r/a/.bktls.cache'')\<rparr>"
  have a1: "stubWrites demoExt ''/r/a'' ?ok sentinelRefusedDisk = [None, None]"
    by (simp add: demo_write_x demo_write_y os_Mkdir_def os_Symlink_def sentinelRefusedDisk_def)
  have l1: "SyncOpen_stubLoop demoExt ''/r/a'' ?ok 0 sentinelRefusedDisk = (0, ?d1)"
    by (simp add: demo_write_x demo_write_y os_Mkdir_def os_Symlink_def sentinelRefusedDisk_def)
  have t1: "touchDirCached demoExt ''/r/a'' ?d1 =
      (Some (PathError ''open'' ''/r/a/.bktls.cache'' ErrPermission), ?d1)"
    unfolding touchDirCached_def Let_def demo_join
    by (subst os_WriteFile_refused) simp_all
  have p1: "SyncOpen_stubPass demoExt ''/r/a'' ?ok sentinelRefusedDisk =
      (Touched (Some (PathError ''open'' ''/r/a/.bktls.cache'' ErrPermission)), ?d1)"
    unfolding SyncOpen_stubPass_def l1 by (simp add: t1)
  have c1: "checkDirCached demoExt ''/r/a'' ?d1 = None"
    by (simp add: sentinel_absent_iff demo_join)
  let ?d2 = "\<lparr>nodes = [''/r/a'' \<mapsto> DirNode, ''/r/a/.bktls.cache'' \<mapsto> FileNode '''',
                       ''/r/a/x.txt'' \<mapsto> SymlinkNode ''eC50eHQ=''],
             refused = (\<lambda>path. path = ''/r/a/z'')\<rparr>"
  have a2: "stubWrites demoExt ''/r/a'' ?xz cachedDisk =
      [None, Some (PathError ''symlink'' ''/r/a/z'' ErrPermission)]"
    by (simp add: demo_write_x demo_write_z os_Symlink_def cachedDisk_def
        del: EncodeToString.simps)
  have p2: "SyncOpen_stubPass demoExt ''/r/a'' ?xz cachedDisk = (Warned 1, ?d2)"
    by (simp add: SyncOpen_stubPass_def demo_write_x demo_write_z os_Symlink_def cachedDisk_def
        del: EncodeToString.simps)
  have c2: "checkDirCached demoExt ''/r/a'' ?d2 \<noteq> None" "nodes ?d2 ''/r/a/z'' = None"
    by (simp_all add: sentinel_absent_iff demo_join)
  let ?d3 = "\<lparr>nodes = [''/r/a'' \<mapsto> DirNode,
                       ''/r/a/.bktls.cache'' \<mapsto> SymlinkNode (EncodeToString ''.bktls.cache'')],
             refused = (\<lambda>path. path = ''/r/a/z'')\<rparr>"
  have c0: "checkDirCached demoExt ''/r/a'' demoDisk = None"
    by (simp add: sentinel_absent_iff demo_join demoDisk_def)
  have a3: "stubWrites demoExt ''/r/a'' ?cz demoDisk =
      [None, Some (PathError ''symlink'' ''/r/a/z'' ErrPermission)]"
    by (simp add: demo_write_cache demo_write_z os_Symlink_def demoDisk_def
        del: EncodeToString.simps)
  have p3: "SyncOpen_stubPass demoExt ''/r/a'' ?cz demoDisk = (Warned 1, ?d3)"
    by (simp add: SyncOpen_stubPass_def demo_write_cache demo_write_z os_Symlink_def demoDisk_def
        del: EncodeToString.simps)
  have c3: "checkDirCached demoExt ''/r/a'' ?d3 \<noteq> None" "nodes ?d3 ''/r/a/z'' = None"
    by (simp_all add: sentinel_absent_iff demo_join del: EncodeToString.simps)
  from a1 p1 c1 a2 p2 c2 c0 a3 p3 c3 show ?thesis
    by (simp only: fst_conv snd_conv simp_thms)
qed


section \<open>Parse: properties\<close>








end
